theory Spec2Isabelle
  imports Main "HOL-Library.AList" "HOL-Library.Sublist"
begin

section \<open>Plain JavaScript objects\<close>

text \<open>
  The configuration provider builds a plain object (\<open>TypedHash<string>\<close>) property by
  property, once by assignment and once by \<open>Object.defineProperty\<close>. An object is the
  list of its own properties in creation order; a property carries its value and the
  three attributes of a data property.
\<close>

datatype 'v property = Property (pvalue: 'v) (enumerable: bool) (writable: bool) (configurable: bool)

type_synonym 'v jsobj = "(string \<times> 'v property) list"

datatype js_error = TypeError | RequestError nat string

text \<open>The own property of a name, and its value.\<close>

definition own_property :: "'v jsobj \<Rightarrow> string \<Rightarrow> 'v property option" where
  "own_property obj k = map_of obj k"

definition own_value :: "'v jsobj \<Rightarrow> string \<Rightarrow> 'v option" where
  "own_value obj k = map_option pvalue (map_of obj k)"

text \<open>
  A property made by assignment or by an object literal is an enumerable, writable and
  configurable data property.
\<close>

definition data_prop :: "'v \<Rightarrow> 'v property" where
  "data_prop v = Property v True True True"

text \<open>
  The assignment \<open>obj[k] = v\<close> of a primitive value in strict code (class bodies are
  strict). An own data property is overwritten in place when it is writable, and the
  assignment throws when it is not. A name the object does not own becomes a new
  property at the end, except \<open>__proto__\<close>: that name reaches the setter inherited from
  \<open>Object.prototype\<close>, which ignores a value that is neither an object nor null.
\<close>

definition js_assign :: "'v jsobj \<Rightarrow> string \<Rightarrow> 'v \<Rightarrow> js_error + 'v jsobj" where
  "js_assign obj k v =
     (case map_of obj k of
        Some p \<Rightarrow>
          if writable p
          then Inr (AList.update k (Property v (enumerable p) True (configurable p)) obj)
          else Inl TypeError
      | None \<Rightarrow>
          if k = ''__proto__'' then Inr obj else Inr (obj @ [(k, data_prop v)]))"

text \<open>
  \<open>Object.defineProperty(obj, k, d)\<close> for a data descriptor \<open>d\<close> that gives all four
  fields, on an extensible object of data properties. A new name is added with the
  attributes of \<open>d\<close>. An existing configurable property takes the attributes of \<open>d\<close>.
  An existing non-configurable property refuses a change of \<open>configurable\<close> to true or
  of \<open>enumerable\<close>, and when it is also non-writable refuses \<open>writable\<close> true and any
  value other than its own; a refusal throws a \<open>TypeError\<close>.
\<close>

definition Object_defineProperty :: "'v jsobj \<Rightarrow> string \<Rightarrow> 'v property \<Rightarrow> js_error + 'v jsobj" where
  "Object_defineProperty obj k d =
     (case map_of obj k of
        None \<Rightarrow> Inr (obj @ [(k, d)])
      | Some c \<Rightarrow>
          if \<not> configurable c \<and> (configurable d \<or> enumerable d \<noteq> enumerable c)
          then Inl TypeError
          else if \<not> configurable c \<and> \<not> writable c \<and> (writable d \<or> pvalue d \<noteq> pvalue c)
          then Inl TypeError
          else Inr (AList.update k d obj))"

text \<open>
  The order in which an object lists its own property names: the names that are array
  indices (canonical decimal numerals below \<open>2^32 - 1\<close>) in ascending numeric order,
  then the other names in creation order. \<open>Object.keys\<close>, \<open>for-in\<close> and
  \<open>JSON.stringify\<close> visit the enumerable ones in that order.
\<close>

definition is_digit :: "char \<Rightarrow> bool" where
  "is_digit c = (48 \<le> (of_char c :: int) \<and> (of_char c :: int) \<le> 57)"

definition digits_value :: "string \<Rightarrow> int" where
  "digits_value s = foldl (\<lambda>a c. 10 * a + ((of_char c :: int) - 48)) 0 s"

definition is_array_index :: "string \<Rightarrow> bool" where
  "is_array_index s =
     (s \<noteq> [] \<and> list_all is_digit s \<and> (s = ''0'' \<or> hd s \<noteq> CHR ''0'')
      \<and> digits_value s < 4294967295)"

definition ordered_keys :: "string list \<Rightarrow> string list" where
  "ordered_keys ks =
     sort_key digits_value (filter is_array_index ks)
     @ filter (\<lambda>k. \<not> is_array_index k) ks"

definition own_property_keys :: "'v jsobj \<Rightarrow> string list" where
  "own_property_keys obj = ordered_keys (map fst obj)"

definition Object_keys :: "'v jsobj \<Rightarrow> string list" where
  "Object_keys obj =
     filter (\<lambda>k. case map_of obj k of Some p \<Rightarrow> enumerable p | None \<Rightarrow> False)
       (own_property_keys obj)"

section \<open>Promises\<close>

text \<open>
  A settled promise is resolved with a value or rejected with an error. \<open>p.then(f)\<close>
  passes a rejection on, and rejects with what \<open>f\<close> throws.
\<close>

datatype 'a promise = Resolved 'a | Rejected js_error

definition then_promise :: "'a promise \<Rightarrow> ('a \<Rightarrow> js_error + 'b) \<Rightarrow> 'b promise" where
  "then_promise p f =
     (case p of
        Rejected e \<Rightarrow> Rejected e
      | Resolved x \<Rightarrow> (case f x of Inl e \<Rightarrow> Rejected e | Inr y \<Rightarrow> Resolved y))"

section \<open>SPListConfigurationProvider.getConfiguration\<close>

text \<open>
  A row of the response, \<open>{ Title: string, Value: string }\<close>. A field the payload
  leaves out reads as \<open>undefined\<close>, which is \<open>None\<close> here; the values of the
  configuration object are strings or \<open>undefined\<close> in the same way.
\<close>

record row =
  Title :: "string option"
  Value :: "string option"

type_synonym configuration = "string option jsobj"

text \<open>
  The property name a row is stored under: \<open>i.Title\<close> used as a property key, where
  \<open>undefined\<close> converts to the string \<open>undefined\<close>.
\<close>

definition ToPropertyKey :: "string option \<Rightarrow> string" where
  "ToPropertyKey t = (case t of None \<Rightarrow> ''undefined'' | Some s \<Rightarrow> s)"

text \<open>
  The source file holds both sides of an unresolved merge. The side marked \<open>HEAD\<close>
  fills the object by assignment in a \<open>forEach\<close>:
  \<^verbatim>\<open>data.forEach(i => { configuration[i.Title] = i.Value; });\<close>
\<close>

fun forEach_HEAD :: "row list \<Rightarrow> configuration \<Rightarrow> js_error + configuration" where
  "forEach_HEAD [] configuration = Inr configuration"
| "forEach_HEAD (i # rest) configuration =
     (case js_assign configuration (ToPropertyKey (Title i)) (Value i) of
        Inl e \<Rightarrow> Inl e
      | Inr configuration' \<Rightarrow> forEach_HEAD rest configuration')"

definition getConfiguration_HEAD :: "row list promise \<Rightarrow> configuration promise" where
  "getConfiguration_HEAD response = then_promise response (\<lambda>data. forEach_HEAD data [])"

text \<open>
  The incoming side (commit 159efbb) reduces the rows with \<open>Object.defineProperty\<close>,
  every property non-configurable, non-enumerable and non-writable:
  \<^verbatim>\<open>data.reduce((configuration, item) => Object.defineProperty(configuration, item.Title,
     { configurable: false, enumerable: false, value: item.Value, writable: false }), {})\<close>
\<close>

fun reduce_incoming :: "row list \<Rightarrow> configuration \<Rightarrow> js_error + configuration" where
  "reduce_incoming [] configuration = Inr configuration"
| "reduce_incoming (item # rest) configuration =
     (case Object_defineProperty configuration (ToPropertyKey (Title item))
             (Property (Value item) False False False) of
        Inl e \<Rightarrow> Inl e
      | Inr configuration' \<Rightarrow> reduce_incoming rest configuration')"

definition getConfiguration_incoming :: "row list promise \<Rightarrow> configuration promise" where
  "getConfiguration_incoming response = then_promise response (\<lambda>data. reduce_incoming data [])"


text \<open>
  The (name, value) pairs the rows are stored under, in response order, and the row sets
  in which no name is given two different values.
\<close>

definition row_entries :: "row list \<Rightarrow> (string \<times> string option) list" where
  "row_entries rows = map (\<lambda>r. (ToPropertyKey (Title r), Value r)) rows"

definition conflict_free :: "row list \<Rightarrow> bool" where
  "conflict_free rows =
     (\<forall>r \<in> set rows. \<forall>r' \<in> set rows.
        ToPropertyKey (Title r) = ToPropertyKey (Title r') \<longrightarrow> Value r = Value r')"

text \<open>
  Two shapes of object the proofs keep track of: the objects assignment builds (every
  property writable and enumerable, none named \<open>__proto__\<close>), and the objects the
  incoming side builds (every property non-writable, non-enumerable, non-configurable).
  A row set is compatible with the values \<open>m\<close> already defined when it is conflict free
  and gives no name of \<open>m\<close> another value.
\<close>

definition plain_object :: "'v jsobj \<Rightarrow> bool" where
  "plain_object obj =
     list_all (\<lambda>(k, p). writable p \<and> enumerable p \<and> k \<noteq> ''__proto__'') obj"

definition frozen_object :: "'v jsobj \<Rightarrow> bool" where
  "frozen_object obj =
     list_all (\<lambda>(k, p). \<not> writable p \<and> \<not> enumerable p \<and> \<not> configurable p) obj"

definition compatible :: "(string \<rightharpoonup> string option) \<Rightarrow> row list \<Rightarrow> bool" where
  "compatible m rows =
     ((\<forall>r \<in> set rows. \<forall>v. m (ToPropertyKey (Title r)) = Some v \<longrightarrow> v = Value r)
      \<and> (\<forall>r \<in> set rows. \<forall>r' \<in> set rows.
            ToPropertyKey (Title r) = ToPropertyKey (Title r') \<longrightarrow> Value r = Value r'))"

section \<open>Queryable\<close>

text \<open>
  Modelled from the spec: the classes \<open>Queryable\<close>, \<open>QueryableCollection\<close> and
  \<open>QueryableInstance\<close> (module \<open>queryable\<close>) are imported by the sources and are not
  among them. Sections 3, 4.1 and 4.2 of the specification describe them: a Queryable
  wraps a path builder, that is a base URL, an ordered sequence of path segments and a
  map of query parameters with unique names in which the last write wins.
\<close>

type_synonym dictionary = "(string \<times> string) list"

definition dictionary_add :: "dictionary \<Rightarrow> string \<Rightarrow> string \<Rightarrow> dictionary" where
  "dictionary_add d k v = AList.update k v d"

record Queryable =
  base :: string
  segments :: "string list"
  queryParams :: dictionary

text \<open>
  Modelled from the spec: \<open>withSegment(s)\<close> represents \<open>self + "/" + s\<close> with redundant
  separators trimmed, and \<open>withQueryParam\<close> sets a parameter, overwriting the same name.
  The separators around a segment are dropped when it is added, and a segment with
  nothing else in it adds nothing.
\<close>

definition trim_separators :: "string \<Rightarrow> string" where
  "trim_separators s =
     rev (dropWhile (\<lambda>c. c = CHR ''/'') (rev (dropWhile (\<lambda>c. c = CHR ''/'') s)))"

definition withSegment :: "Queryable \<Rightarrow> string \<Rightarrow> Queryable" where
  "withSegment q s =
     (if trim_separators s = [] then q
      else q\<lparr>segments := segments q @ [trim_separators s]\<rparr>)"

definition withQueryParam :: "Queryable \<Rightarrow> string \<Rightarrow> string \<Rightarrow> Queryable" where
  "withQueryParam q name v = q\<lparr>queryParams := dictionary_add (queryParams q) name v\<rparr>"

text \<open>
  Modelled from the spec: \<open>toUrl()\<close> is the URL of the node, the base followed by the
  segments, each after one \<open>/\<close> (the tests of section 8 and \<open>Fields.getById\<close> read it as
  the address a child is appended to). The query string that request resolution adds
  after it is the transport's concern.
\<close>

definition toUrl :: "Queryable \<Rightarrow> string" where
  "toUrl q =
     (if segments q = [] then base q
      else rev (dropWhile (\<lambda>c. c = CHR ''/'') (rev (base q)))
           @ concat (map (\<lambda>s. CHR ''/'' # s) (segments q)))"

text \<open>
  Modelled from the spec: construction from a base URL starts a root builder and
  optionally descends into the relative path; construction from a parent copies the
  parent's builder (its segments and query parameters) and descends into the relative
  path. The first argument is \<open>string | Queryable\<close>, an absent path is \<open>None\<close>.
\<close>

definition descend :: "Queryable \<Rightarrow> string option \<Rightarrow> Queryable" where
  "descend q path = (case path of None \<Rightarrow> q | Some s \<Rightarrow> withSegment q s)"

definition Queryable_new :: "string + Queryable \<Rightarrow> string option \<Rightarrow> Queryable" where
  "Queryable_new baseUrl path =
     (case baseUrl of
        Inl url \<Rightarrow> descend \<lparr>base = url, segments = [], queryParams = []\<rparr> path
      | Inr parent \<Rightarrow>
          descend \<lparr>base = base parent, segments = segments parent,
                   queryParams = queryParams parent\<rparr> path)"

definition QueryableCollection_new :: "string + Queryable \<Rightarrow> string option \<Rightarrow> Queryable" where
  "QueryableCollection_new baseUrl path = Queryable_new baseUrl path"

definition QueryableInstance_new :: "string + Queryable \<Rightarrow> string option \<Rightarrow> Queryable" where
  "QueryableInstance_new baseUrl path = Queryable_new baseUrl path"

text \<open>
  Modelled from the spec: the verbs. \<open>get()\<close> issues an HTTP GET and \<open>post(options)\<close> an
  HTTP POST with the optional body and header overrides of its options. A request is
  what the node hands to the transport: the verb, the node it is issued on, the headers
  and the body.
\<close>

record post_options =
  body :: "string option"
  headers :: "(string \<times> string) list"

record request =
  http_method :: string
  target :: Queryable
  request_headers :: "(string \<times> string) list"
  request_body :: "string option"

definition get :: "Queryable \<Rightarrow> request" where
  "get q = \<lparr>http_method = ''GET'', target = q, request_headers = [], request_body = None\<rparr>"

definition post :: "Queryable \<Rightarrow> post_options option \<Rightarrow> request" where
  "post q options =
     \<lparr>http_method = ''POST'', target = q,
      request_headers = (case options of None \<Rightarrow> [] | Some opts \<Rightarrow> headers opts),
      request_body = (case options of None \<Rightarrow> None | Some opts \<Rightarrow> body opts)\<rparr>"

section \<open>JSON values and JSON.stringify\<close>

text \<open>
  A \<open>TypedHash\<close> is a plain object used as a dictionary: every member an ordinary data
  property, written here as the list of its members in creation order. The request
  bodies are built from such hashes of strings, numbers and booleans. Numbers are the
  integers (of magnitude below \<open>10^21\<close>, which print in plain decimal notation).
\<close>

type_synonym 'v TypedHash = "(string \<times> 'v) list"

datatype json =
    JString string
  | JNumber int
  | JBoolean bool
  | JObject "(string \<times> json) list"

text \<open>The members of a hash with their values, in key order (\<open>Object.entries\<close>).\<close>

definition Object_entries :: "'v TypedHash \<Rightarrow> (string \<times> 'v) list" where
  "Object_entries h =
     List.map_filter (\<lambda>k. map_option (\<lambda>v. (k, v)) (map_of h k)) (ordered_keys (map fst h))"

text \<open>
  \<open>JSON.stringify\<close> quotes a string between double quotes and escapes the double quote,
  the backslash and the control characters.
\<close>

definition hex_digit :: "nat \<Rightarrow> char" where
  "hex_digit n = ''0123456789abcdef'' ! n"

definition quote_char :: "char \<Rightarrow> string" where
  "quote_char c =
     (if c = CHR 0x22 then [CHR 0x5C, CHR 0x22]
      else if c = CHR 0x5C then [CHR 0x5C, CHR 0x5C]
      else if c = CHR 0x08 then [CHR 0x5C, CHR ''b'']
      else if c = CHR 0x0C then [CHR 0x5C, CHR ''f'']
      else if c = CHR 0x0A then [CHR 0x5C, CHR ''n'']
      else if c = CHR 0x0D then [CHR 0x5C, CHR ''r'']
      else if c = CHR 0x09 then [CHR 0x5C, CHR ''t'']
      else if (of_char c :: nat) < 32
      then [CHR 0x5C, CHR ''u'', CHR ''0'', CHR ''0'',
            hex_digit ((of_char c :: nat) div 16), hex_digit ((of_char c :: nat) mod 16)]
      else [c])"

definition QuoteJSONString :: "string \<Rightarrow> string" where
  "QuoteJSONString s = CHR 0x22 # concat (map quote_char s) @ [CHR 0x22]"

fun decimal :: "nat \<Rightarrow> string" where
  "decimal n =
     (if n < 10 then [''0123456789'' ! n]
      else decimal (n div 10) @ [''0123456789'' ! (n mod 10)])"

text \<open>
  \<open>Number_toString\<close> is the decimal numeral of an integer. It is the platform's text
  only for integers of magnitude below \<open>10^21\<close>: from there on the platform prints
  exponent notation (\<open>1e+21\<close>), which this function does not, and fractions and \<open>NaN\<close>
  are outside \<open>JNumber\<close>. No property below reads the text of a number beyond that
  range.
\<close>

definition Number_toString :: "int \<Rightarrow> string" where
  "Number_toString i = (if i < 0 then CHR ''-'' # decimal (nat (- i)) else decimal (nat i))"

fun intercalate :: "string \<Rightarrow> string list \<Rightarrow> string" where
  "intercalate sep [] = []"
| "intercalate sep [x] = x"
| "intercalate sep (x # y # ys) = x @ sep @ intercalate sep (y # ys)"

text \<open>
  An object is serialized member by member: every value first, then the members are
  written in key order as \<open>"name":value\<close>, separated by commas.
\<close>

fun JSON_stringify :: "json \<Rightarrow> string"
  and stringify_members :: "(string \<times> json) list \<Rightarrow> (string \<times> string) list" where
  "JSON_stringify (JString s) = QuoteJSONString s"
| "JSON_stringify (JNumber i) = Number_toString i"
| "JSON_stringify (JBoolean b) = (if b then ''true'' else ''false'')"
| "JSON_stringify (JObject members) =
     ''{'' @ intercalate '',''
              (map (\<lambda>(k, text). QuoteJSONString k @ '':'' @ text)
                 (Object_entries (stringify_members members))) @ ''}''"
| "stringify_members [] = []"
| "stringify_members ((k, v) # members) = (k, JSON_stringify v) # stringify_members members"


text \<open>
  Modelled from the spec: \<open>Util.extend(target, source)\<close> (module \<open>utils/util\<close>) is not
  among the sources. Section 6 gives the envelope it builds,
  \<open>{"__metadata": {...}, <properties>}\<close>: the members of the target followed by the
  members of the source. The members of the source are assigned in key order; a member
  whose name the target already has takes that member's place. An absent source (an
  optional argument left out) leaves the target as it is.
\<close>

definition Util_extend :: "'v TypedHash \<Rightarrow> 'v TypedHash option \<Rightarrow> 'v TypedHash" where
  "Util_extend target' source =
     (case source of
        None \<Rightarrow> target'
      | Some src \<Rightarrow> foldl (\<lambda>t (k, v). AList.update k v t) target' (Object_entries src))"

section \<open>Site\<close>

text \<open>
  \<^verbatim>\<open>constructor(baseUrl: string, path?: string) { super(baseUrl, path); }\<close>
\<close>

definition Site_new :: "string \<Rightarrow> string option \<Rightarrow> Queryable" where
  "Site_new baseUrl path = QueryableInstance_new (Inl baseUrl) path"

text \<open>
  The three request methods of \<open>Site\<close>. Each builds a node of its own from a literal
  address; the receiving instance is the first argument here.
  \<^verbatim>\<open>let q = new Site("_api/contextinfo"); return q.post();\<close>
  \<^verbatim>\<open>let q = new Queryable("_api/sp.web.getdocumentlibraries(@v)");
q.query.add("@v", "'" + absoluteWebUrl + "'"); return q.get();\<close>
\<close>

definition Site_getContextInfo :: "Queryable \<Rightarrow> request" where
  "Site_getContextInfo this = (let q = Site_new ''_api/contextinfo'' None in post q None)"

definition Site_getDocumentLibraries :: "Queryable \<Rightarrow> string \<Rightarrow> request" where
  "Site_getDocumentLibraries this absoluteWebUrl =
     (let q = Queryable_new (Inl ''_api/sp.web.getdocumentlibraries(@v)'') None;
          q = withQueryParam q ''@v'' ([CHR 0x27] @ absoluteWebUrl @ [CHR 0x27])
      in get q)"

definition Site_getWebUrlFromPageUrl :: "Queryable \<Rightarrow> string \<Rightarrow> request" where
  "Site_getWebUrlFromPageUrl this absolutePageUrl =
     (let q = Queryable_new (Inl ''_api/sp.web.getweburlfrompageurl(@v)'') None;
          q = withQueryParam q ''@v'' ([CHR 0x27] @ absolutePageUrl @ [CHR 0x27])
      in get q)"

section \<open>Fields and Field\<close>

text \<open>
  \<^verbatim>\<open>constructor(baseUrl: string | Queryable, path = "fields") { super(baseUrl, path); }\<close>
  for the collection, and for the instance
  \<^verbatim>\<open>constructor(baseUrl: string | Queryable, path?: string) { super(baseUrl); }\<close>
  which hands its superclass the base only.
\<close>

definition Fields_new :: "string + Queryable \<Rightarrow> string option \<Rightarrow> Queryable" where
  "Fields_new baseUrl path =
     QueryableCollection_new baseUrl (Some (case path of None \<Rightarrow> ''fields'' | Some s \<Rightarrow> s))"

definition Field_new :: "string + Queryable \<Rightarrow> string option \<Rightarrow> Queryable" where
  "Field_new baseUrl path = QueryableInstance_new baseUrl None"

text \<open>
  \<^verbatim>\<open>getByTitle(title) { return new Field(this, `getByTitle('${title}')`); }\<close>
  \<^verbatim>\<open>getById(id) { return new Field(this.toUrl().concat(`('${id}')`)); }\<close>
\<close>

definition Fields_getByTitle :: "Queryable \<Rightarrow> string \<Rightarrow> Queryable" where
  "Fields_getByTitle this title =
     Field_new (Inr this) (Some (''getByTitle('' @ [CHR 0x27] @ title @ [CHR 0x27] @ '')''))"

definition Fields_getById :: "Queryable \<Rightarrow> string \<Rightarrow> Queryable" where
  "Fields_getById this id' =
     Field_new (Inl (toUrl this @ (''('' @ [CHR 0x27] @ id' @ [CHR 0x27] @ '')''))) None"

text \<open>
  \<open>createFieldAsXml\<close> takes the schema as a string or as creation information (a hash
  with the member \<open>SchemaXml\<close>), wraps the extended information in an object with the
  single member \<open>parameters\<close>, and posts it to the node \<open>createfieldasxml\<close> under the
  collection.
\<close>

definition createFieldAsXml_payload :: "string + json TypedHash \<Rightarrow> json" where
  "createFieldAsXml_payload xml =
     (let info = (case xml of Inl schema \<Rightarrow> [(''SchemaXml'', JString schema)] | Inr i \<Rightarrow> i)
      in JObject
           [(''parameters'',
             JObject (Util_extend
               [(''__metadata'', JObject [(''type'', JString ''SP.XmlSchemaFieldCreationInformation'')])]
               (Some info)))])"

definition Fields_createFieldAsXml :: "Queryable \<Rightarrow> string + json TypedHash \<Rightarrow> request" where
  "Fields_createFieldAsXml this xml =
     (let postBody = JSON_stringify (createFieldAsXml_payload xml);
          q = Fields_new (Inr this) (Some ''createfieldasxml'')
      in post q (Some \<lparr>body = Some postBody, headers = []\<rparr>))"

text \<open>
  \<open>add(title, fieldType, properties = {})\<close> posts the extended hash to the collection
  itself.
\<close>

definition Fields_add_payload :: "string \<Rightarrow> string \<Rightarrow> json TypedHash option \<Rightarrow> json" where
  "Fields_add_payload title fieldType properties =
     JObject (Util_extend
       [(''__metadata'', JObject [(''type'', JString fieldType)]), (''Title'', JString title)]
       (Some (case properties of None \<Rightarrow> [] | Some h \<Rightarrow> h)))"

definition Fields_add :: "Queryable \<Rightarrow> string \<Rightarrow> string \<Rightarrow> json TypedHash option \<Rightarrow> request" where
  "Fields_add this title fieldType properties =
     (let postBody = JSON_stringify (Fields_add_payload title fieldType properties)
      in post this (Some \<lparr>body = Some postBody, headers = []\<rparr>))"

text \<open>
  Both promises resolve with the response data and the field the collection finds under
  the identifier of the response, \<open>{ data: data, field: this.getById(data.Id) }\<close>.
\<close>

record 'd FieldAddResult =
  add_data :: 'd
  add_field :: Queryable

definition FieldAddResult_of :: "Queryable \<Rightarrow> 'd \<Rightarrow> string \<Rightarrow> 'd FieldAddResult" where
  "FieldAddResult_of this data' data_Id = \<lparr>add_data = data', add_field = Fields_getById this data_Id\<rparr>"

text \<open>
  \<open>update(properties, fieldType = "SP.Field")\<close> and \<open>delete()\<close> of a field, and the three
  setters, each of which builds a field from this one and a path and posts to it.
\<close>

definition Field_update_payload :: "json TypedHash \<Rightarrow> string option \<Rightarrow> json" where
  "Field_update_payload properties fieldType =
     JObject (Util_extend
       [(''__metadata'', JObject [(''type'', JString (case fieldType of None \<Rightarrow> ''SP.Field'' | Some t \<Rightarrow> t))])]
       (Some properties))"

definition Field_update :: "Queryable \<Rightarrow> json TypedHash \<Rightarrow> string option \<Rightarrow> request" where
  "Field_update this properties fieldType =
     (let postBody = JSON_stringify (Field_update_payload properties fieldType)
      in post this (Some \<lparr>body = Some postBody, headers = [(''X-HTTP-Method'', ''MERGE'')]\<rparr>))"

record 'd FieldUpdateResult =
  update_data :: 'd
  update_field :: Queryable

definition FieldUpdateResult_of :: "Queryable \<Rightarrow> 'd \<Rightarrow> 'd FieldUpdateResult" where
  "FieldUpdateResult_of this data' = \<lparr>update_data = data', update_field = this\<rparr>"

definition Field_delete :: "Queryable \<Rightarrow> request" where
  "Field_delete this = post this (Some \<lparr>body = None, headers = [(''X-HTTP-Method'', ''DELETE'')]\<rparr>)"

definition boolean_toString :: "bool \<Rightarrow> string" where
  "boolean_toString b = (if b then ''true'' else ''false'')"

definition Field_setShowInDisplayForm :: "Queryable \<Rightarrow> bool \<Rightarrow> request" where
  "Field_setShowInDisplayForm this show' =
     (let q = Field_new (Inr this) (Some (''setshowindisplayform('' @ boolean_toString show' @ '')''))
      in post q None)"

definition Field_setShowInEditForm :: "Queryable \<Rightarrow> bool \<Rightarrow> request" where
  "Field_setShowInEditForm this show' =
     (let q = Field_new (Inr this) (Some (''setshowineditform('' @ boolean_toString show' @ '')''))
      in post q None)"

definition Field_setShowInNewForm :: "Queryable \<Rightarrow> bool \<Rightarrow> request" where
  "Field_setShowInNewForm this show' =
     (let q = Field_new (Inr this) (Some (''setshowinnewform('' @ boolean_toString show' @ '')''))
      in post q None)"

section \<open>SPListConfigurationProvider.asCaching\<close>

text \<open>
  \<^verbatim>\<open>constructor(private sourceWeb: Web, private sourceListTitle = "config")\<close>
  with the accessors \<open>web\<close> and \<open>listTitle\<close>. A \<open>Web\<close> is a Queryable.
\<close>

record SPListConfigurationProvider =
  sourceWeb :: Queryable
  sourceListTitle :: string

definition SPListConfigurationProvider_new :: "Queryable \<Rightarrow> string option \<Rightarrow> SPListConfigurationProvider" where
  "SPListConfigurationProvider_new web' title =
     \<lparr>sourceWeb = web', sourceListTitle = (case title of None \<Rightarrow> ''config'' | Some t \<Rightarrow> t)\<rparr>"

definition web :: "SPListConfigurationProvider \<Rightarrow> Queryable" where
  "web this = sourceWeb this"

definition listTitle :: "SPListConfigurationProvider \<Rightarrow> string" where
  "listTitle this = sourceListTitle this"

text \<open>
  Modelled from the spec: \<open>CachingConfigurationProvider\<close> is imported and not among the
  sources; section 4.4 gives its constructor
  \<open>CachingConfigurationProvider(inner, cacheKey, ttlSeconds?)\<close>.
\<close>

record CachingConfigurationProvider =
  wrappedProvider :: SPListConfigurationProvider
  cacheKey :: string
  ttlSeconds :: "nat option"

definition CachingConfigurationProvider_new ::
  "SPListConfigurationProvider \<Rightarrow> string \<Rightarrow> nat option \<Rightarrow> CachingConfigurationProvider" where
  "CachingConfigurationProvider_new inner key ttl =
     \<lparr>wrappedProvider = inner, cacheKey = key, ttlSeconds = ttl\<rparr>"

text \<open>
  The incoming side of the merge computes the key from the address of the web:
  \<^verbatim>\<open>let cacheKey = `splist_${this.web.toUrl()}+${this.listTitle}`;\<close>
\<close>

definition asCaching_incoming :: "SPListConfigurationProvider \<Rightarrow> CachingConfigurationProvider" where
  "asCaching_incoming this =
     (let cacheKey = ''splist_'' @ toUrl (web this) @ ''+'' @ listTitle this
      in CachingConfigurationProvider_new this cacheKey None)"

text \<open>
  The side marked \<open>HEAD\<close> reads \<open>this.webUrl\<close>, which the class does not have (its
  members are \<open>sourceWeb\<close> and \<open>sourceListTitle\<close>); the read gives \<open>undefined\<close>, which
  the template prints as the word \<open>undefined\<close>:
  \<^verbatim>\<open>let cacheKey = `splist_${this.webUrl}+${this.listTitle}`;\<close>
\<close>

definition asCaching_HEAD :: "SPListConfigurationProvider \<Rightarrow> CachingConfigurationProvider" where
  "asCaching_HEAD this =
     (let cacheKey = ''splist_'' @ ''undefined'' @ ''+'' @ listTitle this
      in CachingConfigurationProvider_new this cacheKey None)"


section \<open>CachingConfigurationProvider.getConfiguration\<close>

text \<open>
  Modelled from the spec: the caching provider is not among the sources. Section 4.4:
  a call checks the process-wide cache for an unexpired record under the key; a hit
  resolves with the stored mapping without a load; on a miss or an expired record the
  inner provider is invoked, a success stores a new record (the value, expiring at now
  plus the time to live) and resolves with the value, a failure propagates the inner
  error and caches nothing.

  The cache and the number of inner loads made so far are the state. The inner provider
  is the outcome of each of its loads, \<open>inner n\<close> for the load after \<open>n\<close> earlier ones;
  the clock and the time to live of a provider constructed without one are arguments.
\<close>

record CacheRecord =
  cached_value :: configuration
  expiration :: nat

record cache_state =
  cache :: "string \<rightharpoonup> CacheRecord"
  inner_loads :: nat

definition unexpired :: "cache_state \<Rightarrow> string \<Rightarrow> nat \<Rightarrow> CacheRecord option" where
  "unexpired st key now =
     (case cache st key of
        None \<Rightarrow> None
      | Some r \<Rightarrow> if now < expiration r then Some r else None)"

definition Caching_getConfiguration ::
  "CachingConfigurationProvider \<Rightarrow> (nat \<Rightarrow> configuration promise) \<Rightarrow> nat \<Rightarrow> nat
     \<Rightarrow> cache_state \<Rightarrow> configuration promise \<times> cache_state" where
  "Caching_getConfiguration this inner default_ttl now st =
     (case unexpired st (cacheKey this) now of
        Some r \<Rightarrow> (Resolved (cached_value r), st)
      | None \<Rightarrow>
          (let loaded = st\<lparr>inner_loads := Suc (inner_loads st)\<rparr> in
           case inner (inner_loads st) of
             Rejected e \<Rightarrow> (Rejected e, loaded)
           | Resolved v \<Rightarrow>
               (Resolved v,
                loaded\<lparr>cache := (cache loaded)(cacheKey this \<mapsto>
                  \<lparr>cached_value = v,
                   expiration = now + (case ttlSeconds this of None \<Rightarrow> default_ttl | Some t \<Rightarrow> t)\<rparr>)\<rparr>)))"

section \<open>Queryable nodes in a store\<close>

text \<open>
  Modelled from the spec: whether deriving a child shares state with its parent is a
  question about objects, so here the nodes live in a store. A node holds its base, its
  segments and the address of its query dictionary, a mutable object of its own.
  Construction from a base URL allocates an empty dictionary; construction from a
  parent allocates a new dictionary holding a copy of the parent's parameters (section
  4.2: copy-on-derive, never share-on-derive). \<open>q.query.add(k, v)\<close> writes into the
  dictionary the node points to. An operation on an address that holds no node fails.
\<close>

type_synonym address = nat

record node =
  node_base :: string
  node_segments :: "string list"
  node_query :: address

record store =
  nodes :: "address \<rightharpoonup> node"
  dictionaries :: "address \<rightharpoonup> dictionary"
  next_address :: address

definition empty_store :: store where
  "empty_store = \<lparr>nodes = Map.empty, dictionaries = Map.empty, next_address = 0\<rparr>"

text \<open>The node at an address as a value: its base, its segments and its parameters.\<close>

definition view :: "store \<Rightarrow> address \<Rightarrow> Queryable option" where
  "view st a =
     (case nodes st a of
        None \<Rightarrow> None
      | Some n \<Rightarrow>
          (case dictionaries st (node_query n) of
             None \<Rightarrow> None
           | Some d \<Rightarrow> Some \<lparr>base = node_base n, segments = node_segments n, queryParams = d\<rparr>))"

definition allocate :: "store \<Rightarrow> Queryable \<Rightarrow> address \<times> store" where
  "allocate st q =
     (let d = next_address st; a = Suc d in
      (a, \<lparr>nodes = (nodes st)(a \<mapsto> \<lparr>node_base = base q, node_segments = segments q, node_query = d\<rparr>),
           dictionaries = (dictionaries st)(d \<mapsto> queryParams q),
           next_address = Suc a\<rparr>))"

definition Queryable_construct ::
  "store \<Rightarrow> string + address \<Rightarrow> string option \<Rightarrow> (address \<times> store) option" where
  "Queryable_construct st baseUrl path =
     (case baseUrl of
        Inl url \<Rightarrow> Some (allocate st (Queryable_new (Inl url) path))
      | Inr parent \<Rightarrow>
          (case view st parent of
             None \<Rightarrow> None
           | Some p \<Rightarrow> Some (allocate st (Queryable_new (Inr p) path))))"

definition query_add :: "store \<Rightarrow> address \<Rightarrow> string \<Rightarrow> string \<Rightarrow> store option" where
  "query_add st a k v =
     (case nodes st a of
        None \<Rightarrow> None
      | Some n \<Rightarrow>
          (case dictionaries st (node_query n) of
             None \<Rightarrow> None
           | Some d \<Rightarrow>
               Some (st\<lparr>dictionaries := (dictionaries st)(node_query n \<mapsto> dictionary_add d k v)\<rparr>)))"

text \<open>
  A derivation chain: roots constructed from a URL, children constructed from any node
  there is (by the constructor with a path, or as a field by \<open>Fields.getByTitle\<close>, whose
  constructor passes the parent alone), and parameters added to any node.
\<close>

datatype chain_step =
    Root string "string option"
  | Derive address "string option"
  | GetByTitle address string
  | QueryAdd address string string

definition Fields_getByTitle_at :: "store \<Rightarrow> address \<Rightarrow> string \<Rightarrow> (address \<times> store) option" where
  "Fields_getByTitle_at st this title = Queryable_construct st (Inr this) None"

fun run_chain :: "chain_step list \<Rightarrow> store \<Rightarrow> store option" where
  "run_chain [] st = Some st"
| "run_chain (Root url path # steps) st =
     (case Queryable_construct st (Inl url) path of
        None \<Rightarrow> None
      | Some (a, st') \<Rightarrow> run_chain steps st')"
| "run_chain (Derive parent path # steps) st =
     (case Queryable_construct st (Inr parent) path of
        None \<Rightarrow> None
      | Some (a, st') \<Rightarrow> run_chain steps st')"
| "run_chain (GetByTitle parent title # steps) st =
     (case Fields_getByTitle_at st parent title of
        None \<Rightarrow> None
      | Some (a, st') \<Rightarrow> run_chain steps st')"
| "run_chain (QueryAdd a k v # steps) st =
     (case query_add st a k v of
        None \<Rightarrow> None
      | Some st' \<Rightarrow> run_chain steps st')"

text \<open>The steps that write to the parameters of the node at an address.\<close>

fun mutates :: "address \<Rightarrow> chain_step \<Rightarrow> bool" where
  "mutates p (QueryAdd a k v) = (a = p)"
| "mutates p _ = False"

text \<open>
  The stores construction produces: every address in use is below the next one, every
  node points to a dictionary there is, and no two nodes point to the same dictionary.
\<close>

definition well_formed :: "store \<Rightarrow> bool" where
  "well_formed st =
     ((\<forall>a n. nodes st a = Some n \<longrightarrow>
          a < next_address st \<and> node_query n < next_address st
          \<and> dictionaries st (node_query n) \<noteq> None)
      \<and> (\<forall>a b n m. nodes st a = Some n \<and> nodes st b = Some m \<and> node_query n = node_query m
            \<longrightarrow> a = b))"

section \<open>Properties of getConfiguration\<close>

lemma row_entries_Nil [simp]: "row_entries [] = []"
  by (simp add: row_entries_def)

lemma row_entries_Cons [simp]:
  "row_entries (r # rows) = (ToPropertyKey (Title r), Value r) # row_entries rows"
  by (simp add: row_entries_def)

lemma set_ordered_keys [simp]: "set (ordered_keys ks) = set ks"
  by (auto simp: ordered_keys_def)

lemma plain_object_map_of:
  "plain_object obj \<Longrightarrow> map_of obj k = Some p \<Longrightarrow> writable p \<and> enumerable p \<and> k \<noteq> ''__proto__''"
  by (auto simp: plain_object_def list_all_iff dest!: map_of_SomeD)

lemma plain_object_update:
  "plain_object obj \<Longrightarrow> writable p \<Longrightarrow> enumerable p \<Longrightarrow> k \<noteq> ''__proto__''
   \<Longrightarrow> plain_object (AList.update k p obj)"
  by (induction obj) (auto simp: plain_object_def)

lemma own_value_update:
  "own_value (AList.update k p obj) = (own_value obj)(k \<mapsto> pvalue p)"
  by (rule ext) (simp add: own_value_def update_conv')

lemma keys_update:
  "fst ` set (AList.update k p obj) = insert k (fst ` set obj)"
  using dom_update [of k p obj] by (simp add: dom_map_of_conv_image_fst)

lemma js_assign_plain:
  assumes "plain_object obj"
  shows "\<exists>obj'. js_assign obj k v = Inr obj' \<and> plain_object obj'
           \<and> own_value obj' = (if k = ''__proto__'' then own_value obj else (own_value obj)(k \<mapsto> v))
           \<and> fst ` set obj' = (if k = ''__proto__'' then fst ` set obj else insert k (fst ` set obj))"
proof (cases "map_of obj k")
  case None
  show ?thesis
  proof (cases "k = ''__proto__''")
    case True
    with None assms show ?thesis by (simp add: js_assign_def)
  next
    case False
    have "own_value (obj @ [(k, data_prop v)]) = (own_value obj)(k \<mapsto> v)"
      using None by (auto simp: own_value_def data_prop_def map_add_def fun_eq_iff split: option.splits)
    moreover have "plain_object (obj @ [(k, data_prop v)])"
      using assms False by (simp add: plain_object_def data_prop_def)
    ultimately show ?thesis using None False by (simp add: js_assign_def)
  qed
next
  case (Some p)
  from plain_object_map_of [OF assms Some] have p: "writable p" "enumerable p" "k \<noteq> ''__proto__''"
    by auto
  let ?p' = "Property v (enumerable p) True (configurable p)"
  have "plain_object (AList.update k ?p' obj)"
    using assms p by (intro plain_object_update) auto
  then show ?thesis
    using Some p by (simp add: js_assign_def own_value_update keys_update)
qed

lemma forEach_HEAD_plain:
  "plain_object obj \<Longrightarrow>
   \<exists>obj'. forEach_HEAD rows obj = Inr obj' \<and> plain_object obj'
     \<and> (\<forall>k. own_value obj' k =
            (if k = ''__proto__'' then own_value obj k
             else (case map_of (rev (row_entries rows)) k of Some v \<Rightarrow> Some v | None \<Rightarrow> own_value obj k)))
     \<and> fst ` set obj' = fst ` set obj \<union> (fst ` set (row_entries rows) - {''__proto__''})"
proof (induction rows arbitrary: obj)
  case Nil
  then show ?case by simp
next
  case (Cons r rows)
  from js_assign_plain [OF Cons.prems, of "ToPropertyKey (Title r)" "Value r"]
  obtain obj1 where s: "js_assign obj (ToPropertyKey (Title r)) (Value r) = Inr obj1"
    and p1: "plain_object obj1"
    and v1: "own_value obj1 = (if ToPropertyKey (Title r) = ''__proto__'' then own_value obj
                else (own_value obj)(ToPropertyKey (Title r) \<mapsto> Value r))"
    and k1: "fst ` set obj1 = (if ToPropertyKey (Title r) = ''__proto__'' then fst ` set obj
                else insert (ToPropertyKey (Title r)) (fst ` set obj))"
    by blast
  from Cons.IH [OF p1] obtain obj' where r: "forEach_HEAD rows obj1 = Inr obj'"
    and p': "plain_object obj'"
    and v': "\<forall>k. own_value obj' k =
            (if k = ''__proto__'' then own_value obj1 k
             else (case map_of (rev (row_entries rows)) k of Some v \<Rightarrow> Some v | None \<Rightarrow> own_value obj1 k))"
    and k': "fst ` set obj' = fst ` set obj1 \<union> (fst ` set (row_entries rows) - {''__proto__''})"
    by blast
  have "forEach_HEAD (r # rows) obj = Inr obj'" using s r by simp
  moreover have "\<forall>k. own_value obj' k =
            (if k = ''__proto__'' then own_value obj k
             else (case map_of (rev (row_entries (r # rows))) k of Some v \<Rightarrow> Some v | None \<Rightarrow> own_value obj k))"
    using v' v1 by (auto simp: map_add_def split: option.splits)
  moreover have "fst ` set obj' = fst ` set obj \<union> (fst ` set (row_entries (r # rows)) - {''__proto__''})"
    using k' k1 by auto
  ultimately show ?case using p' by blast
qed

lemma Object_keys_plain:
  "plain_object obj \<Longrightarrow> set (Object_keys obj) = fst ` set obj"
proof -
  assume p: "plain_object obj"
  have "\<And>k. k \<in> fst ` set obj \<Longrightarrow> (case map_of obj k of Some p \<Rightarrow> enumerable p | None \<Rightarrow> False)"
  proof -
    fix k assume "k \<in> fst ` set obj"
    then obtain q where "map_of obj k = Some q"
      by (metis domD dom_map_of_conv_image_fst)
    with plain_object_map_of [OF p this] show "case map_of obj k of Some p \<Rightarrow> enumerable p | None \<Rightarrow> False"
      by simp
  qed
  then show ?thesis
    by (auto simp: Object_keys_def own_property_keys_def)
qed


lemma frozen_object_map_of:
  "frozen_object obj \<Longrightarrow> map_of obj k = Some p \<Longrightarrow> p = Property (pvalue p) False False False"
  by (cases p) (auto simp: frozen_object_def list_all_iff dest!: map_of_SomeD)

lemma frozen_object_attrs:
  "frozen_object obj \<Longrightarrow> map_of obj k = Some p
   \<Longrightarrow> \<not> writable p \<and> \<not> enumerable p \<and> \<not> configurable p"
  by (auto simp: frozen_object_def list_all_iff dest!: map_of_SomeD)

lemma own_value_append:
  "map_of obj k = None \<Longrightarrow> own_value (obj @ [(k, p)]) = (own_value obj)(k \<mapsto> pvalue p)"
  by (auto simp: own_value_def map_add_def fun_eq_iff split: option.splits)

lemma defineProperty_frozen:
  assumes "frozen_object obj"
  shows "Object_defineProperty obj k (Property v False False False) =
           (if own_value obj k = None \<or> own_value obj k = Some v
            then Inr (if own_value obj k = None then obj @ [(k, Property v False False False)] else obj)
            else Inl TypeError)"
proof (cases "map_of obj k")
  case None
  then show ?thesis by (simp add: Object_defineProperty_def own_value_def)
next
  case (Some c)
  from frozen_object_map_of [OF assms Some] have c: "c = Property (pvalue c) False False False" .
  show ?thesis
  proof (cases "pvalue c = v")
    case True
    with c Some have "map_of obj k = Some (Property v False False False)" by simp
    then have "AList.update k (Property v False False False) obj = obj"
      by (rule update_triv)
    with Some c True show ?thesis
      by (simp add: Object_defineProperty_def own_value_def)
  next
    case False
    with Some frozen_object_attrs [OF assms Some] show ?thesis
      by (simp add: Object_defineProperty_def own_value_def)
  qed
qed

lemma compat_fwd:
  assumes 1: "\<forall>x\<in>set (a # xs). \<forall>v. m (f x) = Some v \<longrightarrow> v = g x"
    and 2: "\<forall>x\<in>set (a # xs). \<forall>y\<in>set (a # xs). f x = f y \<longrightarrow> g x = g y"
    and M1: "M (f a) = Some (g a)" and M2: "\<And>k. k \<noteq> f a \<Longrightarrow> M k = m k"
  shows "(m (f a) = None \<or> m (f a) = Some (g a))
    \<and> (\<forall>x\<in>set xs. \<forall>v. M (f x) = Some v \<longrightarrow> v = g x)
    \<and> (\<forall>x\<in>set xs. \<forall>y\<in>set xs. f x = f y \<longrightarrow> g x = g y)"
proof (intro conjI)
  from 1 have "\<forall>v. m (f a) = Some v \<longrightarrow> v = g a" by simp
  then show "m (f a) = None \<or> m (f a) = Some (g a)"
    by (cases "m (f a)") simp_all
  show "\<forall>x\<in>set xs. \<forall>v. M (f x) = Some v \<longrightarrow> v = g x"
  proof (intro ballI allI impI)
    fix x v assume x: "x \<in> set xs" and v: "M (f x) = Some v"
    show "v = g x"
    proof (cases "f x = f a")
      case True
      with v M1 have "v = g a" by simp
      moreover from 2 x True have "g x = g a" by (metis list.set_intros)
      ultimately show ?thesis by simp
    next
      case False
      with v M2 have "m (f x) = Some v" by metis
      with 1 x show ?thesis by (metis list.set_intros(2))
    qed
  qed
  show "\<forall>x\<in>set xs. \<forall>y\<in>set xs. f x = f y \<longrightarrow> g x = g y"
    using 2 by (metis list.set_intros(2))
qed

lemma compat_bwd:
  assumes 0: "m (f a) = None \<or> m (f a) = Some (g a)"
    and 1: "\<forall>x\<in>set xs. \<forall>v. M (f x) = Some v \<longrightarrow> v = g x"
    and 2: "\<forall>x\<in>set xs. \<forall>y\<in>set xs. f x = f y \<longrightarrow> g x = g y"
    and M1: "M (f a) = Some (g a)" and M2: "\<And>k. k \<noteq> f a \<Longrightarrow> M k = m k"
  shows "(\<forall>x\<in>set (a # xs). \<forall>v. m (f x) = Some v \<longrightarrow> v = g x)
    \<and> (\<forall>x\<in>set (a # xs). \<forall>y\<in>set (a # xs). f x = f y \<longrightarrow> g x = g y)"
proof (intro conjI)
  have same: "g x = g a" if "x \<in> set xs" "f x = f a" for x
  proof -
    from that M1 have "M (f x) = Some (g a)" by simp
    with 1 that(1) show ?thesis by metis
  qed
  have old: "v = g x" if "x \<in> set xs" "m (f x) = Some v" for x v
  proof (cases "f x = f a")
    case True
    with that 0 have "v = g a" by auto
    with same [OF that(1) True] show ?thesis by metis
  next
    case False
    with that M2 have "M (f x) = Some v" by metis
    with 1 that(1) show ?thesis by metis
  qed
  have a: "\<forall>v. m (f a) = Some v \<longrightarrow> v = g a" using 0 by auto
  show "\<forall>x\<in>set (a # xs). \<forall>v. m (f x) = Some v \<longrightarrow> v = g x"
  proof (intro ballI allI impI)
    fix x v assume "x \<in> set (a # xs)" and v: "m (f x) = Some v"
    then have "x = a \<or> x \<in> set xs" by simp
    then show "v = g x"
    proof
      assume "x = a" with a v show ?thesis by simp
    next
      assume "x \<in> set xs" from old [OF this v] show ?thesis .
    qed
  qed
  show "\<forall>x\<in>set (a # xs). \<forall>y\<in>set (a # xs). f x = f y \<longrightarrow> g x = g y"
  proof (intro ballI impI)
    fix x y assume "x \<in> set (a # xs)" "y \<in> set (a # xs)" and e: "f x = f y"
    then have "x = a \<or> x \<in> set xs" "y = a \<or> y \<in> set xs" by simp_all
    then consider "x = a" "y = a" | "x = a" "y \<in> set xs"
      | "y = a" "x \<in> set xs" | "x \<in> set xs" "y \<in> set xs"
      by blast
    then show "g x = g y"
    proof cases
      case 1 then show ?thesis by simp
    next
      case 2 with same [of y] e show ?thesis by metis
    next
      case 3 with same [of x] e show ?thesis by metis
    next
      case 4 with 2 e show ?thesis by metis
    qed
  qed
qed

lemma compatible_lookup:
  "compatible m rows \<Longrightarrow> r \<in> set rows \<Longrightarrow> m (ToPropertyKey (Title r)) = Some v \<Longrightarrow> v = Value r"
  unfolding compatible_def by metis

lemma compatible_Cons:
  "compatible m (r # rows) \<longleftrightarrow>
     (m (ToPropertyKey (Title r)) = None \<or> m (ToPropertyKey (Title r)) = Some (Value r))
     \<and> compatible (m(ToPropertyKey (Title r) \<mapsto> Value r)) rows"
proof -
  let ?f = "\<lambda>r. ToPropertyKey (Title r)"
  let ?M = "m(?f r \<mapsto> Value r)"
  have M1: "?M (?f r) = Some (Value r)" by simp
  have M2: "\<And>k. k \<noteq> ?f r \<Longrightarrow> ?M k = m k" by simp
  show ?thesis
    unfolding compatible_def
    using compat_fwd [of r rows m ?f Value ?M, OF _ _ M1 M2]
      compat_bwd [of m ?f r Value rows ?M, OF _ _ _ M1 M2]
    by blast
qed

lemma reduce_incoming_frozen:
  "frozen_object obj \<Longrightarrow>
   (if compatible (own_value obj) rows
    then \<exists>obj'. reduce_incoming rows obj = Inr obj' \<and> frozen_object obj'
           \<and> (\<forall>k. own_value obj' k =
                 (case map_of (row_entries rows) k of Some v \<Rightarrow> Some v | None \<Rightarrow> own_value obj k))
           \<and> fst ` set obj' = fst ` set obj \<union> fst ` set (row_entries rows)
    else reduce_incoming rows obj = Inl TypeError)"
proof (induction rows arbitrary: obj)
  case Nil
  then show ?case by (simp add: compatible_def)
next
  case (Cons r rows)
  let ?k = "ToPropertyKey (Title r)"
  let ?d = "Property (Value r) False False False"
  show ?case
  proof (cases "own_value obj ?k = None \<or> own_value obj ?k = Some (Value r)")
    case False
    then have "\<not> compatible (own_value obj) (r # rows)" by (simp add: compatible_Cons)
    moreover have "reduce_incoming (r # rows) obj = Inl TypeError"
      using False by (auto simp: defineProperty_frozen [OF Cons.prems])
    ultimately show ?thesis by simp
  next
    case True
    define obj1 where "obj1 = (if own_value obj ?k = None then obj @ [(?k, ?d)] else obj)"
    have d: "Object_defineProperty obj ?k ?d = Inr obj1"
      using True by (simp add: defineProperty_frozen [OF Cons.prems] obj1_def)
    have f1: "frozen_object obj1"
      using Cons.prems by (simp add: obj1_def frozen_object_def)
    have v1: "own_value obj1 = (own_value obj)(?k \<mapsto> Value r)"
    proof (cases "own_value obj ?k = None")
      case True
      then have "map_of obj ?k = None" by (simp add: own_value_def)
      from own_value_append [OF this, of ?d] True show ?thesis by (simp add: obj1_def)
    next
      case False
      with True show ?thesis by (auto simp: obj1_def)
    qed
    have k1: "fst ` set obj1 = insert ?k (fst ` set obj)"
    proof (cases "own_value obj ?k = None")
      case True
      then show ?thesis by (simp add: obj1_def)
    next
      case False
      then have "?k \<in> dom (map_of obj)" by (auto simp: own_value_def)
      then have "?k \<in> fst ` set obj" by (simp add: dom_map_of_conv_image_fst)
      with False show ?thesis by (auto simp: obj1_def)
    qed
    have c: "compatible (own_value obj) (r # rows) \<longleftrightarrow> compatible (own_value obj1) rows"
      using True by (simp add: compatible_Cons v1)
    have e: "reduce_incoming (r # rows) obj = reduce_incoming rows obj1"
      using d by simp
    show ?thesis
    proof (cases "compatible (own_value obj1) rows")
      case False
      with Cons.IH [OF f1] c e show ?thesis by simp
    next
      case True
      with Cons.IH [OF f1] obtain obj' where r: "reduce_incoming rows obj1 = Inr obj'"
        and f': "frozen_object obj'"
        and v': "\<forall>k. own_value obj' k =
                 (case map_of (row_entries rows) k of Some v \<Rightarrow> Some v | None \<Rightarrow> own_value obj1 k)"
        and k': "fst ` set obj' = fst ` set obj1 \<union> fst ` set (row_entries rows)"
        by auto
      have cc: "\<forall>r' \<in> set rows. ToPropertyKey (Title r') = ?k \<longrightarrow> Value r' = Value r"
      proof (intro ballI impI)
        fix r' assume r': "r' \<in> set rows" and k: "ToPropertyKey (Title r') = ?k"
        then have "own_value obj1 (ToPropertyKey (Title r')) = Some (Value r)" by (simp add: v1)
        from compatible_lookup [OF True r' this] show "Value r' = Value r" by simp
      qed
      have "\<forall>k. own_value obj' k =
                 (case map_of (row_entries (r # rows)) k of Some v \<Rightarrow> Some v | None \<Rightarrow> own_value obj k)"
      proof
        fix k
        show "own_value obj' k =
                 (case map_of (row_entries (r # rows)) k of Some v \<Rightarrow> Some v | None \<Rightarrow> own_value obj k)"
        proof (cases "k = ?k")
          case False
          then show ?thesis using v' v1 by (simp split: option.splits)
        next
          case keq: True
          show ?thesis
          proof (cases "map_of (row_entries rows) ?k")
            case None
            then show ?thesis using v' v1 keq by simp
          next
            case (Some v)
            then have "(?k, v) \<in> set (row_entries rows)" by (rule map_of_SomeD)
            then obtain r' where "r' \<in> set rows" "ToPropertyKey (Title r') = ?k" "Value r' = v"
              by (auto simp: row_entries_def)
            with cc have "v = Value r" by auto
            with Some show ?thesis using v' keq by simp
          qed
        qed
      qed
      moreover have "fst ` set obj' = fst ` set obj \<union> fst ` set (row_entries (r # rows))"
        using k' k1 by auto
      ultimately show ?thesis using c True e r f' by simp
    qed
  qed
qed

lemma Object_keys_frozen:
  "frozen_object obj \<Longrightarrow> Object_keys obj = []"
proof -
  assume f: "frozen_object obj"
  have "\<And>k. \<not> (case map_of obj k of Some p \<Rightarrow> enumerable p | None \<Rightarrow> False)"
  proof -
    fix k
    show "\<not> (case map_of obj k of Some p \<Rightarrow> enumerable p | None \<Rightarrow> False)"
    proof (cases "map_of obj k")
      case None then show ?thesis by simp
    next
      case (Some p)
      from frozen_object_attrs [OF f Some] Some show ?thesis by simp
    qed
  qed
  then show ?thesis by (simp add: Object_keys_def)
qed

lemma plain_object_Nil: "plain_object []"
  by (simp add: plain_object_def)

lemma frozen_object_Nil: "frozen_object []"
  by (simp add: frozen_object_def)

lemma compatible_empty: "compatible (own_value []) rows = conflict_free rows"
  by (simp add: compatible_def conflict_free_def own_value_def)

lemma getConfiguration_HEAD_resolves:
  "\<exists>cfg. getConfiguration_HEAD (Resolved rows) = Resolved cfg \<and> plain_object cfg
     \<and> (\<forall>k. own_value cfg k =
            (if k = ''__proto__'' then None else map_of (rev (row_entries rows)) k))
     \<and> set (Object_keys cfg) = fst ` set (row_entries rows) - {''__proto__''}"
proof -
  from forEach_HEAD_plain [OF plain_object_Nil, of rows]
  obtain cfg where r: "forEach_HEAD rows [] = Inr cfg" and p: "plain_object cfg"
    and v: "\<forall>k. own_value cfg k =
            (if k = ''__proto__'' then own_value ([] :: configuration) k
             else (case map_of (rev (row_entries rows)) k of Some v \<Rightarrow> Some v
                   | None \<Rightarrow> own_value ([] :: configuration) k))"
    and k: "fst ` set cfg = fst ` set ([] :: configuration)
              \<union> (fst ` set (row_entries rows) - {''__proto__''})"
    by blast
  have "getConfiguration_HEAD (Resolved rows) = Resolved cfg"
    using r by (simp add: getConfiguration_HEAD_def then_promise_def)
  moreover have "\<forall>k. own_value cfg k =
            (if k = ''__proto__'' then None else map_of (rev (row_entries rows)) k)"
    using v by (simp add: own_value_def split: option.splits)
  moreover have "set (Object_keys cfg) = fst ` set (row_entries rows) - {''__proto__''}"
    using Object_keys_plain [OF p] k by simp
  ultimately show ?thesis using p by blast
qed

lemma map_of_rev_conflict_free:
  assumes "conflict_free rows" and "r \<in> set rows"
  shows "map_of (rev (row_entries rows)) (ToPropertyKey (Title r)) = Some (Value r)"
proof -
  have "(ToPropertyKey (Title r), Value r) \<in> set (rev (row_entries rows))"
    using assms(2) by (auto simp: row_entries_def)
  then have "ToPropertyKey (Title r) \<in> fst ` set (rev (row_entries rows))"
    by force
  then obtain v where v: "map_of (rev (row_entries rows)) (ToPropertyKey (Title r)) = Some v"
    by (metis domD dom_map_of_conv_image_fst)
  then have "(ToPropertyKey (Title r), v) \<in> set (row_entries rows)"
    by (auto dest: map_of_SomeD)
  then obtain r' where r': "r' \<in> set rows" "ToPropertyKey (Title r') = ToPropertyKey (Title r)"
      "Value r' = v"
    by (auto simp: row_entries_def)
  with assms have "v = Value r"
    unfolding conflict_free_def by metis
  with v show ?thesis by simp
qed

lemma map_of_conflict_free:
  assumes "conflict_free rows" and "r \<in> set rows"
  shows "map_of (row_entries rows) (ToPropertyKey (Title r)) = Some (Value r)"
proof -
  have "(ToPropertyKey (Title r), Value r) \<in> set (row_entries rows)"
    using assms(2) by (auto simp: row_entries_def)
  then have "ToPropertyKey (Title r) \<in> fst ` set (row_entries rows)"
    by force
  then obtain v where v: "map_of (row_entries rows) (ToPropertyKey (Title r)) = Some v"
    by (metis domD dom_map_of_conv_image_fst)
  then have "(ToPropertyKey (Title r), v) \<in> set (row_entries rows)"
    by (auto dest: map_of_SomeD)
  then obtain r' where r': "r' \<in> set rows" "ToPropertyKey (Title r') = ToPropertyKey (Title r)"
      "Value r' = v"
    by (auto simp: row_entries_def)
  with assms have "v = Value r"
    unfolding conflict_free_def by metis
  with v show ?thesis by simp
qed

lemma getConfiguration_incoming_outcome:
  "(if conflict_free rows
    then \<exists>cfg. getConfiguration_incoming (Resolved rows) = Resolved cfg \<and> frozen_object cfg
           \<and> (\<forall>k. own_value cfg k = map_of (row_entries rows) k)
           \<and> fst ` set cfg = fst ` set (row_entries rows)
    else getConfiguration_incoming (Resolved rows) = Rejected TypeError)"
proof (cases "conflict_free rows")
  case False
  with reduce_incoming_frozen [OF frozen_object_Nil, of rows] show ?thesis
    by (simp add: compatible_empty getConfiguration_incoming_def then_promise_def)
next
  case True
  with reduce_incoming_frozen [OF frozen_object_Nil, of rows]
  obtain cfg where r: "reduce_incoming rows [] = Inr cfg" and f: "frozen_object cfg"
    and v: "\<forall>k. own_value cfg k =
               (case map_of (row_entries rows) k of Some v \<Rightarrow> Some v
                | None \<Rightarrow> own_value ([] :: configuration) k)"
    and k: "fst ` set cfg = fst ` set ([] :: configuration) \<union> fst ` set (row_entries rows)"
    by (auto simp: compatible_empty)
  have "getConfiguration_incoming (Resolved rows) = Resolved cfg"
    using r by (simp add: getConfiguration_incoming_def then_promise_def)
  moreover have "\<forall>k. own_value cfg k = map_of (row_entries rows) k"
    using v by (simp add: own_value_def split: option.splits)
  ultimately show ?thesis using True f k by auto
qed

lemma frozen_own_property:
  "frozen_object obj \<Longrightarrow> own_value obj k = Some v
   \<Longrightarrow> own_property obj k = Some (Property v False False False)"
proof -
  assume f: "frozen_object obj" and v: "own_value obj k = Some v"
  then obtain p where p: "map_of obj k = Some p" "pvalue p = v"
    by (auto simp: own_value_def)
  from frozen_object_map_of [OF f p(1)] p show ?thesis
    by (simp add: own_property_def)
qed

text \<open>
  C1 (amended). Whatever rows the response holds, the side marked HEAD resolves with an
  object in which every name other than \<open>__proto__\<close> has the Value of the last row
  stored under it, and which enumerates exactly those names; when no name is given two
  different Values, every row's name yields that row's Value. The incoming side
  resolves exactly when no name is given two different Values, every row's name then
  yields that row's Value, but the object enumerates no name; otherwise it rejects with
  a TypeError.
\<close>

theorem getConfiguration_maps_rows:
  "(\<exists>cfg. getConfiguration_HEAD (Resolved rows) = Resolved cfg
      \<and> (\<forall>k. own_value cfg k =
             (if k = ''__proto__'' then None else map_of (rev (row_entries rows)) k))
      \<and> set (Object_keys cfg) = fst ` set (row_entries rows) - {''__proto__''}
      \<and> (conflict_free rows \<longrightarrow>
            (\<forall>r \<in> set rows. ToPropertyKey (Title r) \<noteq> ''__proto__'' \<longrightarrow>
               own_value cfg (ToPropertyKey (Title r)) = Some (Value r))))
   \<and> (conflict_free rows \<longrightarrow>
        (\<exists>cfg. getConfiguration_incoming (Resolved rows) = Resolved cfg
           \<and> (\<forall>r \<in> set rows. own_value cfg (ToPropertyKey (Title r)) = Some (Value r))
           \<and> Object_keys cfg = []))
   \<and> (\<not> conflict_free rows \<longrightarrow>
        getConfiguration_incoming (Resolved rows) = Rejected TypeError)"
proof (intro conjI impI)
  from getConfiguration_HEAD_resolves [of rows]
  obtain cfg where r: "getConfiguration_HEAD (Resolved rows) = Resolved cfg"
    and v: "\<forall>k. own_value cfg k =
            (if k = ''__proto__'' then None else map_of (rev (row_entries rows)) k)"
    and k: "set (Object_keys cfg) = fst ` set (row_entries rows) - {''__proto__''}"
    by blast
  have "conflict_free rows \<longrightarrow>
            (\<forall>r \<in> set rows. ToPropertyKey (Title r) \<noteq> ''__proto__'' \<longrightarrow>
               own_value cfg (ToPropertyKey (Title r)) = Some (Value r))"
    using v map_of_rev_conflict_free [of rows] by simp
  with r v k show "\<exists>cfg. getConfiguration_HEAD (Resolved rows) = Resolved cfg
      \<and> (\<forall>k. own_value cfg k =
             (if k = ''__proto__'' then None else map_of (rev (row_entries rows)) k))
      \<and> set (Object_keys cfg) = fst ` set (row_entries rows) - {''__proto__''}
      \<and> (conflict_free rows \<longrightarrow>
            (\<forall>r \<in> set rows. ToPropertyKey (Title r) \<noteq> ''__proto__'' \<longrightarrow>
               own_value cfg (ToPropertyKey (Title r)) = Some (Value r)))"
    by blast
next
  assume c: "conflict_free rows"
  with getConfiguration_incoming_outcome [of rows]
  obtain cfg where r: "getConfiguration_incoming (Resolved rows) = Resolved cfg"
    and f: "frozen_object cfg"
    and v: "\<forall>k. own_value cfg k = map_of (row_entries rows) k"
    by auto
  have "\<forall>r \<in> set rows. own_value cfg (ToPropertyKey (Title r)) = Some (Value r)"
    using v map_of_conflict_free [OF c] by simp
  with r Object_keys_frozen [OF f]
  show "\<exists>cfg. getConfiguration_incoming (Resolved rows) = Resolved cfg
           \<and> (\<forall>r \<in> set rows. own_value cfg (ToPropertyKey (Title r)) = Some (Value r))
           \<and> Object_keys cfg = []"
    by blast
next
  assume "\<not> conflict_free rows"
  with getConfiguration_incoming_outcome [of rows]
  show "getConfiguration_incoming (Resolved rows) = Rejected TypeError" by simp
qed

theorem getConfiguration_maps_rows_witness:
  "conflict_free [\<lparr>Title = Some ''A'', Value = Some ''1''\<rparr>, \<lparr>Title = Some ''B'', Value = Some ''2''\<rparr>]
   \<and> getConfiguration_HEAD
         (Resolved [\<lparr>Title = Some ''A'', Value = Some ''1''\<rparr>, \<lparr>Title = Some ''B'', Value = Some ''2''\<rparr>])
       = Resolved [(''A'', Property (Some ''1'') True True True),
                   (''B'', Property (Some ''2'') True True True)]
   \<and> own_value [(''A'', Property (Some ''1'') True True True),
                 (''B'', Property (Some ''2'') True True True)] ''A'' = Some (Some ''1'')
   \<and> own_value [(''A'', Property (Some ''1'') True True True),
                 (''B'', Property (Some ''2'') True True True)] ''B'' = Some (Some ''2'')
   \<and> Object_keys [(''A'', Property (Some ''1'') True True True),
                   (''B'', Property (Some ''2'') True True True)] = [''A'', ''B'']
   \<and> getConfiguration_incoming
         (Resolved [\<lparr>Title = Some ''A'', Value = Some ''1''\<rparr>, \<lparr>Title = Some ''B'', Value = Some ''2''\<rparr>])
       = Resolved [(''A'', Property (Some ''1'') False False False),
                   (''B'', Property (Some ''2'') False False False)]"
  using getConfiguration_maps_rows
          [of "[\<lparr>Title = Some ''A'', Value = Some ''1''\<rparr>, \<lparr>Title = Some ''B'', Value = Some ''2''\<rparr>]"]
  by (simp add: conflict_free_def getConfiguration_HEAD_def getConfiguration_incoming_def
        then_promise_def js_assign_def Object_defineProperty_def ToPropertyKey_def data_prop_def
        own_value_def Object_keys_def own_property_keys_def ordered_keys_def is_array_index_def
        is_digit_def)

theorem getConfiguration_maps_rows_counterexample:
  "getConfiguration_HEAD
      (Resolved [\<lparr>Title = Some ''A'', Value = Some ''1''\<rparr>, \<lparr>Title = Some ''A'', Value = Some ''2''\<rparr>])
    = Resolved [(''A'', Property (Some ''2'') True True True)]
   \<and> getConfiguration_incoming
         (Resolved [\<lparr>Title = Some ''A'', Value = Some ''1''\<rparr>, \<lparr>Title = Some ''A'', Value = Some ''2''\<rparr>])
       = Rejected TypeError
   \<and> getConfiguration_incoming
         (Resolved [\<lparr>Title = Some ''A'', Value = Some ''1''\<rparr>, \<lparr>Title = Some ''B'', Value = Some ''2''\<rparr>])
       = Resolved [(''A'', Property (Some ''1'') False False False),
                   (''B'', Property (Some ''2'') False False False)]
   \<and> Object_keys [(''A'', Property (Some ''1'') False False False),
                   (''B'', Property (Some ''2'') False False False)] = []"
  by (simp add: getConfiguration_HEAD_def getConfiguration_incoming_def
        then_promise_def js_assign_def Object_defineProperty_def ToPropertyKey_def data_prop_def
        Object_keys_def own_property_keys_def ordered_keys_def is_array_index_def is_digit_def)

text \<open>
  C7 (amended). A row whose Title is missing is neither rejected for it nor dropped: it
  is stored under the name \<open>undefined\<close>. The side marked HEAD always resolves, and the
  object enumerates the name \<open>undefined\<close> with the Value of the last row stored under
  it. The incoming side resolves with the row's Value as the non-enumerable property
  \<open>undefined\<close> when no name is given two different Values, and rejects with a TypeError
  only when one is.
\<close>

theorem missing_Title_is_stored_as_undefined:
  "r \<in> set rows \<Longrightarrow> Title r = None \<Longrightarrow>
   (\<exists>cfg. getConfiguration_HEAD (Resolved rows) = Resolved cfg
      \<and> ''undefined'' \<in> set (Object_keys cfg)
      \<and> own_value cfg ''undefined'' = map_of (rev (row_entries rows)) ''undefined''
      \<and> own_value cfg ''undefined'' \<noteq> None
      \<and> (conflict_free rows \<longrightarrow> own_value cfg ''undefined'' = Some (Value r)))
   \<and> (conflict_free rows \<longrightarrow>
        (\<exists>cfg. getConfiguration_incoming (Resolved rows) = Resolved cfg
           \<and> own_property cfg ''undefined'' = Some (Property (Value r) False False False)))
   \<and> (\<not> conflict_free rows \<longrightarrow>
        getConfiguration_incoming (Resolved rows) = Rejected TypeError)"
proof (intro conjI impI)
  assume r: "r \<in> set rows" and t: "Title r = None"
  then have key: "ToPropertyKey (Title r) = ''undefined''" by (simp add: ToPropertyKey_def)
  from r key have mem: "''undefined'' \<in> fst ` set (row_entries rows)"
    by (force simp: row_entries_def)
  from getConfiguration_HEAD_resolves [of rows]
  obtain cfg where c: "getConfiguration_HEAD (Resolved rows) = Resolved cfg"
    and v: "\<forall>k. own_value cfg k =
            (if k = ''__proto__'' then None else map_of (rev (row_entries rows)) k)"
    and k: "set (Object_keys cfg) = fst ` set (row_entries rows) - {''__proto__''}"
    by blast
  from k mem have 1: "''undefined'' \<in> set (Object_keys cfg)" by simp
  from v have 2: "own_value cfg ''undefined'' = map_of (rev (row_entries rows)) ''undefined''"
    by simp
  from mem have "''undefined'' \<in> fst ` set (rev (row_entries rows))" by simp
  then have "map_of (rev (row_entries rows)) ''undefined'' \<noteq> None"
    by (metis domIff dom_map_of_conv_image_fst)
  with 2 have 3: "own_value cfg ''undefined'' \<noteq> None" by simp
  have 4: "conflict_free rows \<longrightarrow> own_value cfg ''undefined'' = Some (Value r)"
    using 2 map_of_rev_conflict_free [of rows r] r key by simp
  from c 1 2 3 4
  show "\<exists>cfg. getConfiguration_HEAD (Resolved rows) = Resolved cfg
      \<and> ''undefined'' \<in> set (Object_keys cfg)
      \<and> own_value cfg ''undefined'' = map_of (rev (row_entries rows)) ''undefined''
      \<and> own_value cfg ''undefined'' \<noteq> None
      \<and> (conflict_free rows \<longrightarrow> own_value cfg ''undefined'' = Some (Value r))"
    by blast
next
  assume r: "r \<in> set rows" and t: "Title r = None" and cf: "conflict_free rows"
  then have key: "ToPropertyKey (Title r) = ''undefined''" by (simp add: ToPropertyKey_def)
  from cf getConfiguration_incoming_outcome [of rows]
  obtain cfg where c: "getConfiguration_incoming (Resolved rows) = Resolved cfg"
    and f: "frozen_object cfg"
    and v: "\<forall>k. own_value cfg k = map_of (row_entries rows) k"
    by auto
  from v map_of_conflict_free [OF cf r] key
  have "own_value cfg ''undefined'' = Some (Value r)" by simp
  from frozen_own_property [OF f this] c
  show "\<exists>cfg. getConfiguration_incoming (Resolved rows) = Resolved cfg
           \<and> own_property cfg ''undefined'' = Some (Property (Value r) False False False)"
    by blast
next
  assume "\<not> conflict_free rows"
  with getConfiguration_incoming_outcome [of rows]
  show "getConfiguration_incoming (Resolved rows) = Rejected TypeError" by simp
qed

theorem missing_Title_is_stored_as_undefined_witness:
  "\<lparr>Title = None, Value = Some ''1''\<rparr> \<in> set [\<lparr>Title = Some ''A'', Value = Some ''0''\<rparr>, \<lparr>Title = None, Value = Some ''1''\<rparr>]
   \<and> Title \<lparr>Title = None, Value = Some ''1''\<rparr> = None
   \<and> conflict_free [\<lparr>Title = Some ''A'', Value = Some ''0''\<rparr>, \<lparr>Title = None, Value = Some ''1''\<rparr>]
   \<and> getConfiguration_HEAD
        (Resolved [\<lparr>Title = Some ''A'', Value = Some ''0''\<rparr>, \<lparr>Title = None, Value = Some ''1''\<rparr>])
       = Resolved [(''A'', Property (Some ''0'') True True True),
                   (''undefined'', Property (Some ''1'') True True True)]
   \<and> getConfiguration_incoming
        (Resolved [\<lparr>Title = Some ''A'', Value = Some ''0''\<rparr>, \<lparr>Title = None, Value = Some ''1''\<rparr>])
       = Resolved [(''A'', Property (Some ''0'') False False False),
                   (''undefined'', Property (Some ''1'') False False False)]"
  using missing_Title_is_stored_as_undefined
          [of "\<lparr>Title = None, Value = Some ''1''\<rparr>"
              "[\<lparr>Title = Some ''A'', Value = Some ''0''\<rparr>, \<lparr>Title = None, Value = Some ''1''\<rparr>]"]
  by (simp add: conflict_free_def getConfiguration_HEAD_def getConfiguration_incoming_def
        then_promise_def js_assign_def Object_defineProperty_def ToPropertyKey_def data_prop_def)

theorem missing_Title_counterexample:
  "getConfiguration_HEAD (Resolved [\<lparr>Title = None, Value = Some ''1''\<rparr>])
     = Resolved [(''undefined'', Property (Some ''1'') True True True)]
   \<and> Object_keys [(''undefined'', Property (Some ''1'') True True True)] = [''undefined'']
   \<and> getConfiguration_incoming (Resolved [\<lparr>Title = None, Value = Some ''1''\<rparr>])
     = Resolved [(''undefined'', Property (Some ''1'') False False False)]"
  by (simp add: getConfiguration_HEAD_def getConfiguration_incoming_def
        then_promise_def js_assign_def Object_defineProperty_def ToPropertyKey_def data_prop_def
        Object_keys_def own_property_keys_def ordered_keys_def is_array_index_def is_digit_def)

section \<open>Properties of the request builders\<close>

lemma Queryable_new_parent_only [simp]: "Queryable_new (Inr p) None = p"
  by (simp add: Queryable_new_def descend_def)

lemma Queryable_new_url_only [simp]:
  "Queryable_new (Inl url) None = \<lparr>base = url, segments = [], queryParams = []\<rparr>"
  by (simp add: Queryable_new_def descend_def)

lemma toUrl_root [simp]: "toUrl \<lparr>base = url, segments = [], queryParams = d\<rparr> = url"
  by (simp add: toUrl_def)

text \<open>
  C3, at the input where the code departs from it. On the incoming side the cache key of
  \<open>asCaching()\<close> is \<open>splist_\<close>, the address of the web, \<open>+\<close> and the list title, as the
  claim says. The side marked HEAD reads \<open>this.webUrl\<close>, a member the class does not
  have, so its key holds the word \<open>undefined\<close> where the address would stand: the
  providers of the list \<open>config\<close> over the webs \<open>_api/web\<close> and \<open>sites/hr/_api/web\<close>,
  whose addresses differ, both get the key \<open>splist_undefined+config\<close>, while the
  incoming side gives them two keys.
\<close>

theorem asCaching_HEAD_key_ignores_web:
  "cacheKey (asCaching_incoming p) = ''splist_'' @ toUrl (web p) @ ''+'' @ listTitle p
   \<and> cacheKey (asCaching_HEAD p) = ''splist_undefined+'' @ listTitle p
   \<and> toUrl (web (SPListConfigurationProvider_new (Queryable_new (Inl ''_api/web'') None) None))
       \<noteq> toUrl (web (SPListConfigurationProvider_new (Queryable_new (Inl ''sites/hr/_api/web'') None) None))
   \<and> cacheKey (asCaching_HEAD
         (SPListConfigurationProvider_new (Queryable_new (Inl ''_api/web'') None) None))
       = ''splist_undefined+config''
   \<and> cacheKey (asCaching_HEAD
         (SPListConfigurationProvider_new (Queryable_new (Inl ''sites/hr/_api/web'') None) None))
       = ''splist_undefined+config''
   \<and> cacheKey (asCaching_incoming
         (SPListConfigurationProvider_new (Queryable_new (Inl ''_api/web'') None) None))
       = ''splist__api/web+config''
   \<and> cacheKey (asCaching_incoming
         (SPListConfigurationProvider_new (Queryable_new (Inl ''sites/hr/_api/web'') None) None))
       = ''splist_sites/hr/_api/web+config''"
  by (simp add: asCaching_incoming_def asCaching_HEAD_def CachingConfigurationProvider_new_def
        SPListConfigurationProvider_new_def web_def listTitle_def)

text \<open>
  C4. \<open>Field.update\<close> and \<open>Field.delete\<close> each issue one request, on the field itself,
  with the verb POST; its headers are exactly the header \<open>X-HTTP-Method\<close>, set to
  \<open>MERGE\<close> by update and to \<open>DELETE\<close> by delete.
\<close>

theorem Field_update_delete_tunnel_through_POST:
  "http_method (Field_update this properties fieldType) = ''POST''
   \<and> request_headers (Field_update this properties fieldType) = [(''X-HTTP-Method'', ''MERGE'')]
   \<and> map_of (request_headers (Field_update this properties fieldType)) ''X-HTTP-Method'' = Some ''MERGE''
   \<and> target (Field_update this properties fieldType) = this
   \<and> http_method (Field_delete this) = ''POST''
   \<and> request_headers (Field_delete this) = [(''X-HTTP-Method'', ''DELETE'')]
   \<and> map_of (request_headers (Field_delete this)) ''X-HTTP-Method'' = Some ''DELETE''
   \<and> target (Field_delete this) = this
   \<and> request_body (Field_delete this) = None"
  by (simp add: Field_update_def Field_delete_def post_def)

text \<open>
  C6, at the input where the code departs from it. \<open>getById\<close> appends the key selector
  to the address of the collection. \<open>getByTitle\<close> builds the selector and hands it to the
  constructor of \<open>Field\<close>, which does not pass it on: the field it returns is the
  collection's own node, and for the fields of \<open>_api/web\<close> and the title \<open>Title\<close> its
  address is \<open>_api/web/fields\<close>, which does not end with the selector.
\<close>

theorem Fields_getByTitle_loses_selector:
  "toUrl (Fields_getById this id') = toUrl this @ ''('' @ [CHR 0x27] @ id' @ [CHR 0x27] @ '')''
   \<and> Fields_getByTitle this title = this
   \<and> toUrl (Fields_getByTitle (Fields_new (Inl ''_api/web'') None) ''Title'') = ''_api/web/fields''
   \<and> \<not> suffix (''/getByTitle('' @ [CHR 0x27] @ ''Title'' @ [CHR 0x27] @ '')'')
          (toUrl (Fields_getByTitle (Fields_new (Inl ''_api/web'') None) ''Title''))"
  by (simp add: Fields_getById_def Fields_getByTitle_def Field_new_def QueryableInstance_new_def
        Fields_new_def QueryableCollection_new_def Queryable_new_def descend_def withSegment_def
        trim_separators_def toUrl_def suffix_def)

text \<open>
  C9. The constructor of \<open>Field\<close> ignores its path: a field built from a parent and any
  path is the parent's node again, with the parent's address, and a field built from a
  URL and any path has that URL. So the three setters post to the address of the field
  they are called on.
\<close>

theorem Field_constructor_ignores_path:
  "Field_new (Inr p) s = p
   \<and> toUrl (Field_new (Inr p) s) = toUrl p
   \<and> Field_new b s = Field_new b None
   \<and> toUrl (Field_new (Inl url) s) = url
   \<and> target (Field_setShowInDisplayForm this b1) = this
   \<and> toUrl (target (Field_setShowInDisplayForm this b1)) = toUrl this
   \<and> http_method (Field_setShowInDisplayForm this b1) = ''POST''
   \<and> target (Field_setShowInEditForm this b1) = this
   \<and> toUrl (target (Field_setShowInEditForm this b1)) = toUrl this
   \<and> http_method (Field_setShowInEditForm this b1) = ''POST''
   \<and> target (Field_setShowInNewForm this b1) = this
   \<and> toUrl (target (Field_setShowInNewForm this b1)) = toUrl this
   \<and> http_method (Field_setShowInNewForm this b1) = ''POST''"
  by (simp add: Field_new_def QueryableInstance_new_def Field_setShowInDisplayForm_def
        Field_setShowInEditForm_def Field_setShowInNewForm_def post_def)

text \<open>
  C10. The three request methods of \<open>Site\<close> do not depend on the instance they are called
  on. \<open>getContextInfo\<close> posts to \<open>_api/contextinfo\<close>; the other two issue a GET on the
  fixed address with the single query parameter \<open>@v\<close>, the argument between single
  quotes.
\<close>

theorem Site_requests_ignore_receiver:
  "Site_getContextInfo s1 = Site_getContextInfo s2
   \<and> Site_getDocumentLibraries s1 u = Site_getDocumentLibraries s2 u
   \<and> Site_getWebUrlFromPageUrl s1 u = Site_getWebUrlFromPageUrl s2 u
   \<and> Site_getContextInfo s1
        = \<lparr>http_method = ''POST'',
            target = \<lparr>base = ''_api/contextinfo'', segments = [], queryParams = []\<rparr>,
            request_headers = [], request_body = None\<rparr>
   \<and> toUrl (target (Site_getContextInfo s1)) = ''_api/contextinfo''
   \<and> Site_getDocumentLibraries s1 u
        = \<lparr>http_method = ''GET'',
            target = \<lparr>base = ''_api/sp.web.getdocumentlibraries(@v)'', segments = [],
                      queryParams = [(''@v'', [CHR 0x27] @ u @ [CHR 0x27])]\<rparr>,
            request_headers = [], request_body = None\<rparr>
   \<and> toUrl (target (Site_getDocumentLibraries s1 u)) = ''_api/sp.web.getdocumentlibraries(@v)''
   \<and> Site_getWebUrlFromPageUrl s1 u
        = \<lparr>http_method = ''GET'',
            target = \<lparr>base = ''_api/sp.web.getweburlfrompageurl(@v)'', segments = [],
                      queryParams = [(''@v'', [CHR 0x27] @ u @ [CHR 0x27])]\<rparr>,
            request_headers = [], request_body = None\<rparr>
   \<and> toUrl (target (Site_getWebUrlFromPageUrl s1 u)) = ''_api/sp.web.getweburlfrompageurl(@v)''"
  by (simp add: Site_getContextInfo_def Site_getDocumentLibraries_def
        Site_getWebUrlFromPageUrl_def Site_new_def QueryableInstance_new_def post_def get_def
        withQueryParam_def dictionary_add_def)

section \<open>Properties of the request bodies\<close>

lemma map_of_foldl_update:
  "map_of (foldl (\<lambda>t (k, v). AList.update k v t) t es) k =
     (case map_of (rev es) k of Some v \<Rightarrow> Some v | None \<Rightarrow> map_of t k)"
proof (induction es arbitrary: t)
  case Nil
  then show ?case by simp
next
  case (Cons e es)
  obtain k' v' where e: "e = (k', v')" by (cases e)
  show ?case
    by (simp add: Cons.IH e update_conv' map_add_def split: option.splits)
qed

lemma map_of_map_filter_keys:
  "map_of (List.map_filter (\<lambda>k. map_option (\<lambda>v. (k, v)) (map_of h k)) ks) k =
     (if k \<in> set ks then map_of h k else None)"
proof (induction ks)
  case Nil
  then show ?case by (simp add: List.map_filter_simps)
next
  case (Cons a ks)
  show ?case
  proof (cases "map_of h a")
    case None
    with Cons show ?thesis by (auto simp: List.map_filter_simps)
  next
    case (Some v)
    with Cons show ?thesis by (auto simp: List.map_filter_simps)
  qed
qed

lemma rev_map_filter: "rev (List.map_filter f xs) = List.map_filter f (rev xs)"
  by (simp add: List.map_filter_def rev_map rev_filter)

lemma map_of_rev_Object_entries: "map_of (rev (Object_entries h)) k = map_of h k"
proof -
  have "map_of (rev (Object_entries h)) k =
          (if k \<in> set (rev (ordered_keys (map fst h))) then map_of h k else None)"
    unfolding Object_entries_def rev_map_filter by (rule map_of_map_filter_keys)
  also have "\<dots> = map_of h k"
  proof (cases "k \<in> fst ` set h")
    case True
    then show ?thesis by (simp add: ordered_keys_def)
  next
    case False
    then have "map_of h k = None" by (simp add: map_of_eq_None_iff)
    with False show ?thesis by (auto simp: ordered_keys_def)
  qed
  finally show ?thesis .
qed

lemma map_of_Util_extend:
  "map_of (Util_extend t (Some h)) k =
     (case map_of h k of Some v \<Rightarrow> Some v | None \<Rightarrow> map_of t k)"
  by (simp add: Util_extend_def map_of_foldl_update map_of_rev_Object_entries)

lemma Object_entries_Nil [simp]: "Object_entries [] = []"
  by (simp add: Object_entries_def ordered_keys_def List.map_filter_simps)

lemma Util_extend_empty [simp]: "Util_extend t (Some []) = t"
  by (simp add: Util_extend_def)

text \<open>
  C5 (amended). \<open>Fields.add\<close> posts, to the collection, the JSON serialization of an
  object whose member \<open>__metadata\<close> is \<open>{"type": fieldType}\<close>, whose member \<open>Title\<close> is the
  title and whose other members are the supplied properties, for properties that have
  no member named \<open>__metadata\<close> or \<open>Title\<close> of their own. \<open>Fields.createFieldAsXml\<close>
  posts, to \<open>createfieldasxml\<close> under the collection, the serialization of an object
  with the single member \<open>parameters\<close>; that member is the object with \<open>__metadata\<close> set
  to \<open>{"type": "SP.XmlSchemaFieldCreationInformation"}\<close>, a fixed name, followed by
  \<open>SchemaXml\<close> for a schema given as a string, or by the members of the creation
  information given (one with no \<open>__metadata\<close> of its own).
\<close>

theorem Fields_post_bodies:
  "(''__metadata'' \<notin> fst ` set properties \<and> ''Title'' \<notin> fst ` set properties \<longrightarrow>
      (\<exists>members.
          request_body (Fields_add this title fieldType (Some properties))
            = Some (JSON_stringify (JObject members))
        \<and> map_of members ''__metadata'' = Some (JObject [(''type'', JString fieldType)])
        \<and> map_of members ''Title'' = Some (JString title)
        \<and> (\<forall>k. k \<noteq> ''__metadata'' \<and> k \<noteq> ''Title'' \<longrightarrow> map_of members k = map_of properties k)))
   \<and> request_body (Fields_add this title fieldType None)
        = Some (JSON_stringify
            (JObject [(''__metadata'', JObject [(''type'', JString fieldType)]),
                      (''Title'', JString title)]))
   \<and> http_method (Fields_add this title fieldType props) = ''POST''
   \<and> target (Fields_add this title fieldType props) = this
   \<and> request_body (Fields_createFieldAsXml this (Inl schema))
        = Some (JSON_stringify
            (JObject [(''parameters'',
               JObject [(''__metadata'', JObject [(''type'', JString ''SP.XmlSchemaFieldCreationInformation'')]),
                        (''SchemaXml'', JString schema)])]))
   \<and> (''__metadata'' \<notin> fst ` set info \<longrightarrow>
      (\<exists>members.
          request_body (Fields_createFieldAsXml this (Inr info))
            = Some (JSON_stringify (JObject [(''parameters'', JObject members)]))
        \<and> map_of members ''__metadata''
            = Some (JObject [(''type'', JString ''SP.XmlSchemaFieldCreationInformation'')])
        \<and> (\<forall>k. k \<noteq> ''__metadata'' \<longrightarrow> map_of members k = map_of info k)))
   \<and> http_method (Fields_createFieldAsXml this xml) = ''POST''
   \<and> target (Fields_createFieldAsXml this xml) = Fields_new (Inr this) (Some ''createfieldasxml'')"
proof (intro conjI impI)
  assume a: "''__metadata'' \<notin> fst ` set properties \<and> ''Title'' \<notin> fst ` set properties"
  let ?members = "Util_extend
       [(''__metadata'', JObject [(''type'', JString fieldType)]), (''Title'', JString title)]
       (Some properties)"
  from a have n: "map_of properties ''__metadata'' = None" "map_of properties ''Title'' = None"
    by (simp_all add: map_of_eq_None_iff)
  have "request_body (Fields_add this title fieldType (Some properties))
            = Some (JSON_stringify (JObject ?members))"
    by (simp add: Fields_add_def Fields_add_payload_def post_def)
  moreover have "map_of ?members ''__metadata'' = Some (JObject [(''type'', JString fieldType)])"
    using n by (simp add: map_of_Util_extend)
  moreover have "map_of ?members ''Title'' = Some (JString title)"
    using n by (simp add: map_of_Util_extend)
  moreover have "\<forall>k. k \<noteq> ''__metadata'' \<and> k \<noteq> ''Title'' \<longrightarrow> map_of ?members k = map_of properties k"
    by (simp add: map_of_Util_extend split: option.splits)
  ultimately show "\<exists>members.
          request_body (Fields_add this title fieldType (Some properties))
            = Some (JSON_stringify (JObject members))
        \<and> map_of members ''__metadata'' = Some (JObject [(''type'', JString fieldType)])
        \<and> map_of members ''Title'' = Some (JString title)
        \<and> (\<forall>k. k \<noteq> ''__metadata'' \<and> k \<noteq> ''Title'' \<longrightarrow> map_of members k = map_of properties k)"
    by blast
next
  show "request_body (Fields_add this title fieldType None)
        = Some (JSON_stringify
            (JObject [(''__metadata'', JObject [(''type'', JString fieldType)]),
                      (''Title'', JString title)]))"
    by (simp add: Fields_add_def Fields_add_payload_def post_def)
next
  show "http_method (Fields_add this title fieldType props) = ''POST''"
    by (simp add: Fields_add_def post_def)
next
  show "target (Fields_add this title fieldType props) = this"
    by (simp add: Fields_add_def post_def)
next
  have "Object_entries [(''SchemaXml'', JString schema)] = [(''SchemaXml'', JString schema)]"
    by (simp add: Object_entries_def ordered_keys_def is_array_index_def is_digit_def
          List.map_filter_simps)
  then show "request_body (Fields_createFieldAsXml this (Inl schema))
        = Some (JSON_stringify
            (JObject [(''parameters'',
               JObject [(''__metadata'', JObject [(''type'', JString ''SP.XmlSchemaFieldCreationInformation'')]),
                        (''SchemaXml'', JString schema)])]))"
    by (simp add: Fields_createFieldAsXml_def createFieldAsXml_payload_def post_def
          Util_extend_def)
next
  assume a: "''__metadata'' \<notin> fst ` set info"
  let ?members = "Util_extend
       [(''__metadata'', JObject [(''type'', JString ''SP.XmlSchemaFieldCreationInformation'')])]
       (Some info)"
  from a have n: "map_of info ''__metadata'' = None"
    by (simp add: map_of_eq_None_iff)
  have "request_body (Fields_createFieldAsXml this (Inr info))
            = Some (JSON_stringify (JObject [(''parameters'', JObject ?members)]))"
    by (simp add: Fields_createFieldAsXml_def createFieldAsXml_payload_def post_def)
  moreover have "map_of ?members ''__metadata''
            = Some (JObject [(''type'', JString ''SP.XmlSchemaFieldCreationInformation'')])"
    using n by (simp add: map_of_Util_extend)
  moreover have "\<forall>k. k \<noteq> ''__metadata'' \<longrightarrow> map_of ?members k = map_of info k"
    by (simp add: map_of_Util_extend split: option.splits)
  ultimately show "\<exists>members.
          request_body (Fields_createFieldAsXml this (Inr info))
            = Some (JSON_stringify (JObject [(''parameters'', JObject members)]))
        \<and> map_of members ''__metadata''
            = Some (JObject [(''type'', JString ''SP.XmlSchemaFieldCreationInformation'')])
        \<and> (\<forall>k. k \<noteq> ''__metadata'' \<longrightarrow> map_of members k = map_of info k)"
    by blast
next
  show "http_method (Fields_createFieldAsXml this xml) = ''POST''"
    by (simp add: Fields_createFieldAsXml_def post_def)
next
  show "target (Fields_createFieldAsXml this xml) = Fields_new (Inr this) (Some ''createfieldasxml'')"
    by (simp add: Fields_createFieldAsXml_def post_def)
qed

lemmas stringify_eval =
  Object_entries_def ordered_keys_def is_array_index_def is_digit_def digits_value_def
  List.map_filter_simps QuoteJSONString_def quote_char_def Number_toString_def hex_digit_def
  Util_extend_def

theorem Fields_post_bodies_witness:
  "''__metadata'' \<notin> fst ` set [(''FieldTypeKind'', JNumber 2)]
   \<and> ''Title'' \<notin> fst ` set [(''FieldTypeKind'', JNumber 2)]
   \<and> ''__metadata'' \<notin> fst ` set [(''SchemaXml'', JString ''<Field/>''), (''Options'', JNumber 8)]
   \<and> request_body (Fields_add (Fields_new (Inl ''_api/web'') None) ''T'' ''SP.FieldText''
          (Some [(''FieldTypeKind'', JNumber 2)]))
       = Some ''{\"__metadata\":{\"type\":\"SP.FieldText\"},\"Title\":\"T\",\"FieldTypeKind\":2}''
   \<and> request_body (Fields_createFieldAsXml (Fields_new (Inl ''_api/web'') None)
          (Inr [(''SchemaXml'', JString ''<Field/>''), (''Options'', JNumber 8)]))
       = Some ''{\"parameters\":{\"__metadata\":{\"type\":\"SP.XmlSchemaFieldCreationInformation\"},\"SchemaXml\":\"<Field/>\",\"Options\":8}}''"
  using Fields_post_bodies
          [of "[(''FieldTypeKind'', JNumber 2)]" "Fields_new (Inl ''_api/web'') None" "''T''"
              "''SP.FieldText''" None "''<Field/>''"
              "[(''SchemaXml'', JString ''<Field/>''), (''Options'', JNumber 8)]" "Inl ''<Field/>''"]
  by (simp add: Fields_add_def Fields_add_payload_def Fields_createFieldAsXml_def
        createFieldAsXml_payload_def post_def stringify_eval)

theorem Fields_post_bodies_counterexample:
  "createFieldAsXml_payload (Inl ''<Field/>'')
     = JObject [(''parameters'',
         JObject [(''__metadata'', JObject [(''type'', JString ''SP.XmlSchemaFieldCreationInformation'')]),
                  (''SchemaXml'', JString ''<Field/>'')])]
   \<and> map_of [(''parameters'',
         JObject [(''__metadata'', JObject [(''type'', JString ''SP.XmlSchemaFieldCreationInformation'')]),
                  (''SchemaXml'', JString ''<Field/>'')])] ''__metadata'' = None
   \<and> request_body (Fields_createFieldAsXml (Fields_new (Inl ''_api/web'') None) (Inl ''<Field/>''))
       = Some ''{\"parameters\":{\"__metadata\":{\"type\":\"SP.XmlSchemaFieldCreationInformation\"},\"SchemaXml\":\"<Field/>\"}}''"
  by (simp add: Fields_createFieldAsXml_def createFieldAsXml_payload_def post_def stringify_eval)

section \<open>Properties of nodes in a store\<close>

lemma well_formed_empty: "well_formed empty_store"
  by (simp add: well_formed_def empty_store_def)

lemma well_formed_nodeD:
  "well_formed st \<Longrightarrow> nodes st a = Some n
   \<Longrightarrow> a < next_address st \<and> node_query n < next_address st
       \<and> dictionaries st (node_query n) \<noteq> None"
  unfolding well_formed_def by blast

lemma well_formed_inj:
  "well_formed st \<Longrightarrow> nodes st a = Some n \<Longrightarrow> nodes st b = Some m
   \<Longrightarrow> node_query n = node_query m \<Longrightarrow> a = b"
  unfolding well_formed_def by blast

lemma allocate_well_formed:
  assumes wf: "well_formed st" and al: "allocate st q = (a, st')"
  shows "well_formed st'"
proof -
  let ?d = "next_address st"
  from al have a: "a = Suc ?d"
    and st': "st' = \<lparr>nodes = (nodes st)(Suc ?d \<mapsto>
                        \<lparr>node_base = base q, node_segments = segments q, node_query = ?d\<rparr>),
                      dictionaries = (dictionaries st)(?d \<mapsto> queryParams q),
                      next_address = Suc (Suc ?d)\<rparr>"
    by (auto simp: allocate_def Let_def)
  have 1: "b < next_address st' \<and> node_query n < next_address st'
           \<and> dictionaries st' (node_query n) \<noteq> None"
    if "nodes st' b = Some n" for b n
  proof (cases "b = Suc ?d")
    case True
    with that show ?thesis by (auto simp: st')
  next
    case False
    with that have "nodes st b = Some n" by (simp add: st')
    from well_formed_nodeD [OF wf this] show ?thesis by (simp add: st')
  qed
  have 2: "b = c"
    if "nodes st' b = Some n" "nodes st' c = Some m" "node_query n = node_query m" for b c n m
  proof -
    have old: "node_query n' < ?d" if "b' \<noteq> Suc ?d" "nodes st' b' = Some n'" for b' n'
    proof -
      from that have "nodes st b' = Some n'" by (simp add: st')
      from well_formed_nodeD [OF wf this] show ?thesis by simp
    qed
    have new: "node_query n' = ?d" if "nodes st' (Suc ?d) = Some n'" for n'
      using that by (auto simp: st')
    show ?thesis
    proof (cases "b = Suc ?d")
      case bT: True
      show ?thesis
      proof (cases "c = Suc ?d")
        case True
        with bT show ?thesis by simp
      next
        case False
        from old [OF False that(2)] new [of n] that(1,3) bT show ?thesis by simp
      qed
    next
      case bF: False
      show ?thesis
      proof (cases "c = Suc ?d")
        case True
        from old [OF bF that(1)] new [of m] that(2,3) True show ?thesis by simp
      next
        case False
        from bF False that have "nodes st b = Some n" "nodes st c = Some m"
          by (simp_all add: st')
        from well_formed_inj [OF wf this that(3)] show ?thesis .
      qed
    qed
  qed
  from 1 2 show ?thesis unfolding well_formed_def by blast
qed

lemma allocate_view_other:
  assumes wf: "well_formed st" and al: "allocate st q = (a, st')" and v: "view st p = Some x"
  shows "view st' p = Some x"
proof -
  from v obtain n d where n: "nodes st p = Some n" and d: "dictionaries st (node_query n) = Some d"
    and x: "x = \<lparr>base = node_base n, segments = node_segments n, queryParams = d\<rparr>"
    by (auto simp: view_def split: option.splits)
  from well_formed_nodeD [OF wf n] have "p < next_address st" "node_query n < next_address st"
    by simp_all
  with al n d x show ?thesis
    by (auto simp: allocate_def Let_def view_def)
qed

lemma allocate_view_new:
  "allocate st q = (a, st') \<Longrightarrow> view st' a = Some q"
  by (auto simp: allocate_def Let_def view_def)

lemma query_add_well_formed:
  assumes wf: "well_formed st" and qa: "query_add st a k v = Some st'"
  shows "well_formed st'"
proof -
  from qa obtain n d where n: "nodes st a = Some n" and d: "dictionaries st (node_query n) = Some d"
    and st': "st' = st\<lparr>dictionaries := (dictionaries st)(node_query n \<mapsto> dictionary_add d k v)\<rparr>"
    by (auto simp: query_add_def split: option.splits)
  have 1: "b < next_address st' \<and> node_query m < next_address st'
           \<and> dictionaries st' (node_query m) \<noteq> None"
    if "nodes st' b = Some m" for b m
  proof -
    from that have "nodes st b = Some m" by (simp add: st')
    from well_formed_nodeD [OF wf this] show ?thesis by (simp add: st')
  qed
  have 2: "b = c"
    if "nodes st' b = Some m" "nodes st' c = Some m'" "node_query m = node_query m'" for b c m m'
  proof -
    from that have "nodes st b = Some m" "nodes st c = Some m'" by (simp_all add: st')
    from well_formed_inj [OF wf this that(3)] show ?thesis .
  qed
  from 1 2 show ?thesis unfolding well_formed_def by blast
qed

lemma query_add_view_other:
  assumes wf: "well_formed st" and qa: "query_add st a k v = Some st'"
    and p: "p \<noteq> a" and x: "view st p = Some x"
  shows "view st' p = Some x"
proof -
  from qa obtain n d where n: "nodes st a = Some n" and d: "dictionaries st (node_query n) = Some d"
    and st': "st' = st\<lparr>dictionaries := (dictionaries st)(node_query n \<mapsto> dictionary_add d k v)\<rparr>"
    by (auto simp: query_add_def split: option.splits)
  from x obtain m e where m: "nodes st p = Some m" and e: "dictionaries st (node_query m) = Some e"
    and xv: "x = \<lparr>base = node_base m, segments = node_segments m, queryParams = e\<rparr>"
    by (auto simp: view_def split: option.splits)
  have "node_query m \<noteq> node_query n"
  proof
    assume "node_query m = node_query n"
    from well_formed_inj [OF wf m n this] p show False by simp
  qed
  with m e xv show ?thesis by (simp add: st' view_def)
qed

lemma query_add_view_self:
  "query_add st a k v = Some st' \<Longrightarrow> view st a = Some x
   \<Longrightarrow> view st' a = Some (withQueryParam x k v)"
  by (auto simp: query_add_def view_def withQueryParam_def split: option.splits)

lemma construct_well_formed:
  "well_formed st \<Longrightarrow> Queryable_construct st b path = Some (a, st') \<Longrightarrow> well_formed st'"
  by (auto simp: Queryable_construct_def split: sum.splits option.splits
      intro: allocate_well_formed)

lemma construct_view_other:
  "well_formed st \<Longrightarrow> Queryable_construct st b path = Some (a, st') \<Longrightarrow> view st p = Some x
   \<Longrightarrow> view st' p = Some x"
  by (auto simp: Queryable_construct_def split: sum.splits option.splits
      intro: allocate_view_other)

lemma construct_view_child:
  "Queryable_construct st (Inr p) path = Some (a, st') \<Longrightarrow> view st p = Some x
   \<Longrightarrow> view st' a = Some (Queryable_new (Inr x) path)"
  by (auto simp: Queryable_construct_def split: option.splits intro: allocate_view_new)

lemma run_chain_frame:
  "well_formed st \<Longrightarrow> run_chain steps st = Some st' \<Longrightarrow> view st p = Some x
   \<Longrightarrow> list_all (\<lambda>s. \<not> mutates p s) steps
   \<Longrightarrow> well_formed st' \<and> view st' p = Some x"
proof (induction steps arbitrary: st)
  case Nil
  then show ?case by simp
next
  case (Cons s steps)
  from Cons.prems(4) have rest: "list_all (\<lambda>s. \<not> mutates p s) steps" and s: "\<not> mutates p s"
    by simp_all
  show ?case
  proof (cases s)
    case (Root url path)
    with Cons.prems(2) obtain a st1 where c: "Queryable_construct st (Inl url) path = Some (a, st1)"
      and r: "run_chain steps st1 = Some st'"
      by (auto split: option.splits)
    from Cons.IH [OF construct_well_formed [OF Cons.prems(1) c] r
        construct_view_other [OF Cons.prems(1) c Cons.prems(3)] rest]
    show ?thesis .
  next
    case (Derive parent path)
    with Cons.prems(2) obtain a st1 where c: "Queryable_construct st (Inr parent) path = Some (a, st1)"
      and r: "run_chain steps st1 = Some st'"
      by (auto split: option.splits)
    from Cons.IH [OF construct_well_formed [OF Cons.prems(1) c] r
        construct_view_other [OF Cons.prems(1) c Cons.prems(3)] rest]
    show ?thesis .
  next
    case (GetByTitle parent title)
    with Cons.prems(2) obtain a st1 where c: "Queryable_construct st (Inr parent) None = Some (a, st1)"
      and r: "run_chain steps st1 = Some st'"
      by (auto simp: Fields_getByTitle_at_def split: option.splits)
    from Cons.IH [OF construct_well_formed [OF Cons.prems(1) c] r
        construct_view_other [OF Cons.prems(1) c Cons.prems(3)] rest]
    show ?thesis .
  next
    case (QueryAdd a k v)
    with Cons.prems(2) obtain st1 where c: "query_add st a k v = Some st1"
      and r: "run_chain steps st1 = Some st'"
      by (auto split: option.splits)
    from s QueryAdd have "p \<noteq> a" by simp
    from Cons.IH [OF query_add_well_formed [OF Cons.prems(1) c] r
        query_add_view_other [OF Cons.prems(1) c this Cons.prems(3)] rest]
    show ?thesis .
  qed
qed

lemma run_chain_well_formed:
  "well_formed st \<Longrightarrow> run_chain steps st = Some st' \<Longrightarrow> well_formed st'"
proof (induction steps arbitrary: st)
  case Nil
  then show ?case by simp
next
  case (Cons s steps)
  show ?case
  proof (cases s)
    case (Root url path)
    with Cons.prems(2) obtain a st1 where c: "Queryable_construct st (Inl url) path = Some (a, st1)"
      and r: "run_chain steps st1 = Some st'"
      by (auto split: option.splits)
    from Cons.IH [OF construct_well_formed [OF Cons.prems(1) c] r] show ?thesis .
  next
    case (Derive parent path)
    with Cons.prems(2) obtain a st1 where c: "Queryable_construct st (Inr parent) path = Some (a, st1)"
      and r: "run_chain steps st1 = Some st'"
      by (auto split: option.splits)
    from Cons.IH [OF construct_well_formed [OF Cons.prems(1) c] r] show ?thesis .
  next
    case (GetByTitle parent title)
    with Cons.prems(2) obtain a st1 where c: "Queryable_construct st (Inr parent) None = Some (a, st1)"
      and r: "run_chain steps st1 = Some st'"
      by (auto simp: Fields_getByTitle_at_def split: option.splits)
    from Cons.IH [OF construct_well_formed [OF Cons.prems(1) c] r] show ?thesis .
  next
    case (QueryAdd a k v)
    with Cons.prems(2) obtain st1 where c: "query_add st a k v = Some st1"
      and r: "run_chain steps st1 = Some st'"
      by (auto split: option.splits)
    from Cons.IH [OF query_add_well_formed [OF Cons.prems(1) c] r] show ?thesis .
  qed
qed

lemma construct_fresh:
  assumes wf: "well_formed st" and c: "Queryable_construct st b path = Some (a, st')"
    and x: "view st p = Some x"
  shows "a \<noteq> p"
proof -
  from x obtain n where n: "nodes st p = Some n"
    by (auto simp: view_def split: option.splits)
  from well_formed_nodeD [OF wf n] have "p < next_address st" by simp
  moreover from c have "a = Suc (next_address st)"
    by (auto simp: Queryable_construct_def allocate_def Let_def split: sum.splits option.splits)
  ultimately show ?thesis by simp
qed

lemma construct_succeeds:
  "view st p = Some x \<Longrightarrow> \<exists>a st'. Queryable_construct st (Inr p) path = Some (a, st')"
  by (simp add: Queryable_construct_def allocate_def Let_def)

lemma query_add_succeeds:
  "view st a = Some x \<Longrightarrow> \<exists>st'. query_add st a k v = Some st'"
  by (auto simp: query_add_def view_def split: option.splits)

text \<open>
  C8. In a store reached by any chain of constructions and parameter additions, take a
  node \<open>p\<close>. Any further chain -- children and fields derived from \<open>p\<close> or from any other
  node, parameters added to any node but \<open>p\<close> itself -- leaves \<open>p\<close> with the base, the
  segments and the query parameters it had, hence with the same address. In particular
  \<open>Fields.getByTitle\<close> on \<open>p\<close> yields another node, and adding a parameter to that
  field changes the field and not \<open>p\<close>.
\<close>

theorem parent_unchanged_by_child:
  "run_chain pre empty_store = Some st \<Longrightarrow> view st p = Some x \<Longrightarrow>
   (\<forall>steps st'. run_chain steps st = Some st' \<and> list_all (\<lambda>s. \<not> mutates p s) steps
       \<longrightarrow> view st' p = Some x
           \<and> map_option toUrl (view st' p) = Some (toUrl x)
           \<and> map_option queryParams (view st' p) = Some (queryParams x))
   \<and> (\<exists>c st1 st2. Fields_getByTitle_at st p title = Some (c, st1)
          \<and> query_add st1 c k v = Some st2
          \<and> c \<noteq> p
          \<and> view st2 c = Some (withQueryParam x k v)
          \<and> view st2 p = Some x)"
proof (intro conjI allI impI)
  fix steps st'
  assume pre: "run_chain pre empty_store = Some st" and x: "view st p = Some x"
    and s: "run_chain steps st = Some st' \<and> list_all (\<lambda>s. \<not> mutates p s) steps"
  from run_chain_well_formed [OF well_formed_empty pre] have wf: "well_formed st" .
  from s run_chain_frame [OF wf _ x] have "view st' p = Some x" by blast
  then show "view st' p = Some x"
    and "map_option toUrl (view st' p) = Some (toUrl x)"
    and "map_option queryParams (view st' p) = Some (queryParams x)"
    by simp_all
next
  assume pre: "run_chain pre empty_store = Some st" and x: "view st p = Some x"
  from run_chain_well_formed [OF well_formed_empty pre] have wf: "well_formed st" .
  from construct_succeeds [OF x] obtain c st1
    where c: "Queryable_construct st (Inr p) None = Some (c, st1)" by blast
  from construct_well_formed [OF wf c] have wf1: "well_formed st1" .
  from construct_view_other [OF wf c x] have p1: "view st1 p = Some x" .
  from construct_view_child [OF c x] have c1: "view st1 c = Some x"
    by (simp add: Queryable_new_def descend_def)
  from construct_fresh [OF wf c x] have ne: "c \<noteq> p" .
  from query_add_succeeds [OF c1] obtain st2 where q: "query_add st1 c k v = Some st2" by blast
  from query_add_view_self [OF q c1] have c2: "view st2 c = Some (withQueryParam x k v)" .
  from ne have "p \<noteq> c" by simp
  from query_add_view_other [OF wf1 q this p1] have p2: "view st2 p = Some x" .
  from c q ne c2 p2
  show "\<exists>c st1 st2. Fields_getByTitle_at st p title = Some (c, st1)
          \<and> query_add st1 c k v = Some st2
          \<and> c \<noteq> p
          \<and> view st2 c = Some (withQueryParam x k v)
          \<and> view st2 p = Some x"
    unfolding Fields_getByTitle_at_def by blast
qed

theorem parent_unchanged_by_child_witness:
  "\<exists>st st'.
      run_chain [Root ''_api/web'' (Some ''fields'')] empty_store = Some st
    \<and> view st 1 = Some \<lparr>base = ''_api/web'', segments = [''fields''], queryParams = []\<rparr>
    \<and> run_chain [GetByTitle 1 ''Title'', QueryAdd 3 ''$select'' ''Title''] st = Some st'
    \<and> list_all (\<lambda>s. \<not> mutates 1 s) [GetByTitle 1 ''Title'', QueryAdd 3 ''$select'' ''Title'']
    \<and> view st' 3 = Some \<lparr>base = ''_api/web'', segments = [''fields''],
                           queryParams = [(''$select'', ''Title'')]\<rparr>
    \<and> view st' 1 = Some \<lparr>base = ''_api/web'', segments = [''fields''], queryParams = []\<rparr>"
proof -
  let ?x = "\<lparr>base = ''_api/web'', segments = [''fields''], queryParams = []\<rparr>"
  let ?steps = "[GetByTitle 1 ''Title'', QueryAdd 3 ''$select'' ''Title'']"
  obtain st where 1: "run_chain [Root ''_api/web'' (Some ''fields'')] empty_store = Some st"
    by (simp add: Queryable_construct_def allocate_def Let_def)
  then have 2: "view st 1 = Some ?x"
    by (auto simp: Queryable_construct_def allocate_def Let_def empty_store_def view_def
          Queryable_new_def descend_def withSegment_def trim_separators_def)
  from 1 2 obtain st' where 3: "run_chain ?steps st = Some st'"
    and 5: "view st' 3 = Some \<lparr>base = ''_api/web'', segments = [''fields''],
                           queryParams = [(''$select'', ''Title'')]\<rparr>"
    by (auto simp: Queryable_construct_def allocate_def Let_def empty_store_def view_def
          Queryable_new_def descend_def withSegment_def trim_separators_def
          Fields_getByTitle_at_def query_add_def dictionary_add_def)
  have 4: "list_all (\<lambda>s. \<not> mutates 1 s) ?steps" by simp
  from parent_unchanged_by_child [OF 1 2] 3 4 have "view st' 1 = Some ?x" by blast
  with 1 2 3 4 5 show ?thesis by blast
qed

section \<open>Properties of the caching provider\<close>

text \<open>
  C2. When a call finds no unexpired record and the inner load it makes fails, the call
  rejects with the inner provider's error, the cache is what it was, and one inner load
  has been made. If there was no record under the key, there is none afterwards, and the
  next call, at any time, makes a fresh inner load and settles as that load does.
\<close>

theorem failed_load_is_not_cached:
  "inner (inner_loads st) = Rejected e \<Longrightarrow> unexpired st (cacheKey this) now = None \<Longrightarrow>
   fst (Caching_getConfiguration this inner default_ttl now st) = Rejected e
   \<and> cache (snd (Caching_getConfiguration this inner default_ttl now st)) = cache st
   \<and> inner_loads (snd (Caching_getConfiguration this inner default_ttl now st)) = Suc (inner_loads st)
   \<and> (cache st (cacheKey this) = None \<longrightarrow>
        cache (snd (Caching_getConfiguration this inner default_ttl now st)) (cacheKey this) = None
        \<and> (\<forall>now'.
             fst (Caching_getConfiguration this inner default_ttl now'
                    (snd (Caching_getConfiguration this inner default_ttl now st)))
               = inner (Suc (inner_loads st))
           \<and> inner_loads (snd (Caching_getConfiguration this inner default_ttl now'
                    (snd (Caching_getConfiguration this inner default_ttl now st))))
               = Suc (Suc (inner_loads st))))"
  by (auto simp: Caching_getConfiguration_def unexpired_def Let_def split: option.splits promise.splits)

theorem failed_load_is_not_cached_witness:
  "(\<lambda>n. Rejected (RequestError 500 ''unavailable'')) (inner_loads \<lparr>cache = Map.empty, inner_loads = 0\<rparr>)
      = (Rejected (RequestError 500 ''unavailable'') :: configuration promise)
   \<and> unexpired \<lparr>cache = Map.empty, inner_loads = 0\<rparr>
        (cacheKey (CachingConfigurationProvider_new
            (SPListConfigurationProvider_new (Queryable_new (Inl ''_api/web'') None) None) ''k'' None)) 10
      = None
   \<and> Caching_getConfiguration
        (CachingConfigurationProvider_new
            (SPListConfigurationProvider_new (Queryable_new (Inl ''_api/web'') None) None) ''k'' None)
        (\<lambda>n. Rejected (RequestError 500 ''unavailable'')) 60 10
        \<lparr>cache = Map.empty, inner_loads = 0\<rparr>
      = (Rejected (RequestError 500 ''unavailable''), \<lparr>cache = Map.empty, inner_loads = 1\<rparr>)"
  using failed_load_is_not_cached
          [of "\<lambda>n. Rejected (RequestError 500 ''unavailable'')"
              "\<lparr>cache = Map.empty, inner_loads = 0\<rparr>" "RequestError 500 ''unavailable''"
              "CachingConfigurationProvider_new
                 (SPListConfigurationProvider_new (Queryable_new (Inl ''_api/web'') None) None) ''k'' None"
              10 60]
  by (simp add: Caching_getConfiguration_def unexpired_def CachingConfigurationProvider_new_def)

end
